theory Spec2Isabelle
  imports Main "HOL-Library.Sublist" "HOL-Library.Char_ord" "HOL-Library.List_Lexorder"
    "HOL-Library.Product_Lexorder" "HOL-Library.Multiset" "HOL-Library.Word"
begin

section \<open>Strings\<close>

text \<open>
  A Go string is a sequence of bytes; it is modelled as a \<open>char list\<close>. Comparison of
  strings (\<open><\<close>, \<open>\<le>\<close>) is Go's: lexicographic on the bytes.
\<close>

abbreviation dquote :: char where "dquote \<equiv> CHR 0x22"
abbreviation backslash :: char where "backslash \<equiv> CHR 0x5C"
abbreviation newline :: char where "newline \<equiv> CHR 0x0A"
abbreviation creturn :: char where "creturn \<equiv> CHR 0x0D"
abbreviation escape :: char where "escape \<equiv> CHR 0x1B"

text \<open>\<open>strings.IndexByte(s, c)\<close>: the index of the first \<open>c\<close> in \<open>s\<close>; \<open>None\<close> is Go's -1.\<close>

fun IndexByte :: "string \<Rightarrow> char \<Rightarrow> nat option" where
  "IndexByte [] c = None"
| "IndexByte (x # xs) c = (if x = c then Some 0 else map_option Suc (IndexByte xs c))"

text \<open>\<open>strings.Index(s, sub)\<close>: the index of the first occurrence of \<open>sub\<close> in \<open>s\<close>.\<close>

fun Index :: "string \<Rightarrow> string \<Rightarrow> nat option" where
  "Index [] sub = (if sub = [] then Some 0 else None)"
| "Index (x # xs) sub =
     (if prefix sub (x # xs) then Some 0 else map_option Suc (Index xs sub))"

definition HasPrefix :: "string \<Rightarrow> string \<Rightarrow> bool" where
  "HasPrefix s p = prefix p s"

text \<open>
  \<open>strings.TrimSpace(s)\<close> removes the leading and the trailing white space of \<open>s\<close>, as
  Unicode defines it (\<open>unicode.IsSpace\<close>). On the bytes of a string these are the six
  ASCII characters and the UTF-8 encodings of U+0085, U+00A0, U+1680, U+2000 to U+200A,
  U+2028, U+2029, U+202F, U+205F and U+3000.
\<close>

definition asciiSpaces :: "char list" where
  "asciiSpaces = [CHR 0x09, CHR 0x0A, CHR 0x0B, CHR 0x0C, CHR 0x0D, CHR 0x20]"

definition unicodeSpaces :: "string list" where
  "unicodeSpaces =
    [[CHR 0xC2, CHR 0x85], [CHR 0xC2, CHR 0xA0], [CHR 0xE1, CHR 0x9A, CHR 0x80],
     [CHR 0xE2, CHR 0x80, CHR 0x80], [CHR 0xE2, CHR 0x80, CHR 0x81],
     [CHR 0xE2, CHR 0x80, CHR 0x82], [CHR 0xE2, CHR 0x80, CHR 0x83],
     [CHR 0xE2, CHR 0x80, CHR 0x84], [CHR 0xE2, CHR 0x80, CHR 0x85],
     [CHR 0xE2, CHR 0x80, CHR 0x86], [CHR 0xE2, CHR 0x80, CHR 0x87],
     [CHR 0xE2, CHR 0x80, CHR 0x88], [CHR 0xE2, CHR 0x80, CHR 0x89],
     [CHR 0xE2, CHR 0x80, CHR 0x8A], [CHR 0xE2, CHR 0x80, CHR 0xA8],
     [CHR 0xE2, CHR 0x80, CHR 0xA9], [CHR 0xE2, CHR 0x80, CHR 0xAF],
     [CHR 0xE2, CHR 0x81, CHR 0x9F], [CHR 0xE3, CHR 0x80, CHR 0x80]]"

definition spaceRunes :: "string list" where
  "spaceRunes = map (\<lambda>c. [c]) asciiSpaces @ unicodeSpaces"

text \<open>The width in bytes of the white-space rune that starts \<open>s\<close>; 0 when none does.\<close>

fun spaceWidth :: "string list \<Rightarrow> string \<Rightarrow> nat" where
  "spaceWidth [] s = 0"
| "spaceWidth (w # ws) s = (if w \<noteq> [] \<and> prefix w s then length w else spaceWidth ws s)"

lemma spaceWidth_le: "spaceWidth ws s \<le> length s"
  by (induction ws) (auto simp: prefix_length_le)

function trimLeftRunes :: "string list \<Rightarrow> string \<Rightarrow> string" where
  "trimLeftRunes ws s =
     (if spaceWidth ws s = 0 then s else trimLeftRunes ws (drop (spaceWidth ws s) s))"
  by pat_completeness auto
termination
proof (relation "measure (\<lambda>(ws, s). length s)")
  fix ws :: "string list" and s :: string
  assume "spaceWidth ws s \<noteq> 0"
  moreover have "spaceWidth ws s \<le> length s" by (rule spaceWidth_le)
  ultimately show "((ws, drop (spaceWidth ws s) s), (ws, s)) \<in> measure (\<lambda>(ws, s). length s)"
    by simp
qed simp

definition TrimLeftSpace :: "string \<Rightarrow> string" where
  "TrimLeftSpace s = trimLeftRunes spaceRunes s"

definition TrimRightSpace :: "string \<Rightarrow> string" where
  "TrimRightSpace s = rev (trimLeftRunes (map rev spaceRunes) (rev s))"

definition TrimSpace :: "string \<Rightarrow> string" where
  "TrimSpace s = TrimRightSpace (TrimLeftSpace s)"

lemma trimLeftRunes_length: "length (trimLeftRunes ws s) \<le> length s"
proof (induction ws s rule: trimLeftRunes.induct)
  case (1 ws s)
  show ?case
  proof (cases "spaceWidth ws s = 0")
    case True
    then show ?thesis by (subst trimLeftRunes.simps) simp
  next
    case False
    with 1 have "length (trimLeftRunes ws (drop (spaceWidth ws s) s)) \<le> length s" by simp
    with False show ?thesis by (subst trimLeftRunes.simps) simp
  qed
qed

lemma TrimSpace_length: "length (TrimSpace s) \<le> length s"
proof -
  have "length (TrimRightSpace (TrimLeftSpace s)) \<le> length (TrimLeftSpace s)"
    unfolding TrimRightSpace_def using trimLeftRunes_length [of "map rev spaceRunes"] 
    by (metis length_rev)
  also have "\<dots> \<le> length s" unfolding TrimLeftSpace_def by (rule trimLeftRunes_length)
  finally show ?thesis by (simp add: TrimSpace_def)
qed

declare trimLeftRunes.simps [simp del]

section \<open>Records\<close>

text \<open>
  A JSON number decodes to a \<open>float64\<close>, here the 64 bits of its IEEE 754 encoding. The
  program only passes such a value to the formatting functions of Go's library.
\<close>

type_synonym float64 = "64 word"

text \<open>
  The dynamically typed values (\<open>any\<close>) that the parsers store in a record: \<open>nil\<close>,
  \<open>bool\<close>, \<open>float64\<close>, \<open>string\<close>, \<open>[]any\<close> and \<open>map[string]any\<close>.
\<close>

datatype jvalue =
    VNull
  | VBool bool
  | VNum float64
  | VStr string
  | VArr "jvalue list"
  | VObj "(string \<times> jvalue) list"

text \<open>
  \<open>type LogEntry map[string]any\<close>. A map is an association list read through
  \<open>map_of\<close>; the \<open>nil\<close> map, which reads as the empty map and panics when written, is
  a value of its own.
\<close>

type_synonym fields = "(string \<times> jvalue) list"

datatype LogEntry = NilEntry | Entry fields

fun fieldsOf :: "LogEntry \<Rightarrow> fields" where
  "fieldsOf NilEntry = []"
| "fieldsOf (Entry fs) = fs"

text \<open>\<open>val, exists := entry[key]\<close>\<close>

definition lookup :: "LogEntry \<Rightarrow> string \<Rightarrow> jvalue option" where
  "lookup entry key = map_of (fieldsOf entry) key"

text \<open>\<open>m[key] = val\<close> on a map that is not \<open>nil\<close>.\<close>

fun assign :: "fields \<Rightarrow> string \<Rightarrow> jvalue \<Rightarrow> fields" where
  "assign [] k v = [(k, v)]"
| "assign ((k', v') # fs) k v = (if k' = k then (k, v) # fs else (k', v') # assign fs k v)"

text \<open>The keys of a map, each once (\<open>for k := range entry\<close> visits them in no fixed order).\<close>

definition keysOf :: "LogEntry \<Rightarrow> string list" where
  "keysOf entry = remdups (map fst (fieldsOf entry))"

section \<open>The logfmt parser\<close>

text \<open>
  The errors a line can fail with: \<open>parseLogfmt\<close>'s "unterminated string value", and
  the two kinds of error of \<open>json.Unmarshal\<close>.
\<close>

datatype parseError = UnterminatedString | JSONSyntaxError | JSONUnmarshalTypeError

text \<open>
  The inner loop of \<open>parseLogfmt\<close>: from \<open>endIdx\<close>, the first index of a double quote
  whose preceding byte is not a backslash; \<open>length remaining\<close> when there is none.
\<close>

function scanQuote :: "string \<Rightarrow> nat \<Rightarrow> nat" where
  "scanQuote remaining endIdx =
     (if endIdx < length remaining then
        (if remaining ! endIdx = dquote \<and> remaining ! (endIdx - 1) \<noteq> backslash then endIdx
         else scanQuote remaining (endIdx + 1))
      else endIdx)"
  by pat_completeness auto
termination
  by (relation "measure (\<lambda>(remaining, endIdx). length remaining - endIdx)") auto

declare scanQuote.simps [simp del]

lemma IndexByte_less: "IndexByte s c = Some i \<Longrightarrow> i < length s"
  by (induction s arbitrary: i) (auto split: if_splits)

text \<open>
  One pass through the body of the outer loop of \<open>parseLogfmt\<close>, on the map built so
  far and the text that remains: the loop ends with the map (\<open>Done\<close>), the function
  returns an error (\<open>Fail\<close>), or the loop goes on (\<open>Continue\<close>).
\<close>

datatype stepResult = Done fields | Fail parseError | Continue fields string

definition parseStep :: "fields \<Rightarrow> string \<Rightarrow> stepResult" where
  "parseStep entry remaining =
     (if remaining = [] then Done entry
      else if TrimSpace remaining = [] then Done entry
      else
        (case IndexByte (TrimSpace remaining) (CHR ''='') of
          None \<Rightarrow> Done (assign entry (TrimSpace remaining) (VBool True))
        | Some eqIdx \<Rightarrow>
            (let key = take eqIdx (TrimSpace remaining);
                 rest = drop (eqIdx + 1) (TrimSpace remaining)
             in if HasPrefix rest [dquote] then
                  (let endIdx = scanQuote rest 1
                   in if endIdx \<ge> length rest then Fail UnterminatedString
                      else Continue (assign entry key (VStr (take (endIdx - 1) (drop 1 rest))))
                             (drop (endIdx + 1) rest))
                else
                  (case IndexByte rest (CHR '' '') of
                    None \<Rightarrow> Continue (assign entry key (VStr rest)) []
                  | Some spaceIdx \<Rightarrow>
                      Continue (assign entry key (VStr (take spaceIdx rest)))
                        (drop (spaceIdx + 1) rest)))))"

lemma parseStep_shorter:
  assumes "parseStep entry remaining = Continue entry' remaining'"
  shows "length remaining' < length remaining"
proof -
  from assms obtain eqIdx where eq: "IndexByte (TrimSpace remaining) (CHR ''='') = Some eqIdx"
    and le: "length remaining' \<le> length (drop (eqIdx + 1) (TrimSpace remaining))"
    by (auto simp: parseStep_def Let_def split: if_splits option.splits)
  have "eqIdx < length (TrimSpace remaining)" using eq by (rule IndexByte_less)
  with le TrimSpace_length [of remaining] show ?thesis by simp
qed

function parseLoop :: "fields \<Rightarrow> string \<Rightarrow> parseError + fields" where
  "parseLoop entry remaining =
     (case parseStep entry remaining of
        Done e \<Rightarrow> Inr e
      | Fail err \<Rightarrow> Inl err
      | Continue e r \<Rightarrow> parseLoop e r)"
  by pat_completeness auto
termination
  by (relation "measure (\<lambda>(entry, remaining). length remaining)")
    (auto dest: parseStep_shorter)

declare parseLoop.simps [simp del]

text \<open>\<open>parseLogfmt(line)\<close>: \<open>entry := make(LogEntry)\<close>, then the loop.\<close>

definition parseLogfmt :: "string \<Rightarrow> parseError + LogEntry" where
  "parseLogfmt line = map_sum id Entry (parseLoop [] line)"

text \<open>
  The states of the outer loop, in order: the map and the remaining text at the start of
  each pass.
\<close>

function scanStates :: "fields \<Rightarrow> string \<Rightarrow> (fields \<times> string) list" where
  "scanStates entry remaining =
     (entry, remaining) #
     (case parseStep entry remaining of Continue e r \<Rightarrow> scanStates e r | _ \<Rightarrow> [])"
  by pat_completeness auto
termination
  by (relation "measure (\<lambda>(entry, remaining). length remaining)")
    (auto dest: parseStep_shorter)

declare scanStates.simps [simp del]

section \<open>Reading lines\<close>

text \<open>
  An \<open>io.Reader\<close>: the bytes it delivers, and the error that ends the stream when that
  is not \<open>io.EOF\<close>.
\<close>

datatype ioError = ReadFailed

record reader =
  content :: string
  failure :: "ioError option"

definition NewReader :: "string \<Rightarrow> reader" where
  "NewReader s = \<lparr>content = s, failure = None\<rparr>"

text \<open>
  \<open>bufio.Scanner\<close> with the split function \<open>ScanLines\<close>: a token is a line without its
  end-of-line marker (a newline, and a carriage return before it); text after the last
  newline is a token when it is not empty. A line must fit, with its newline, in a buffer
  of \<open>maxTokenSize\<close> bytes, or the scanner stops with \<open>ErrTooLong\<close>.
\<close>

datatype scanError = ErrTooLong | ErrRead ioError

definition dropCR :: "string \<Rightarrow> string" where
  "dropCR s = (if s \<noteq> [] \<and> last s = creturn then butlast s else s)"

function scanTokens :: "nat \<Rightarrow> string \<Rightarrow> string list \<times> bool" where
  "scanTokens maxTokenSize buf =
     (if buf = [] then ([], False)
      else
        (case IndexByte buf newline of
          Some i \<Rightarrow>
            if i + 1 \<le> maxTokenSize then
              (case scanTokens maxTokenSize (drop (i + 1) buf) of
                (tokens, tooLong) \<Rightarrow> (dropCR (take i buf) # tokens, tooLong))
            else ([], True)
        | None \<Rightarrow>
            if length buf + 1 \<le> maxTokenSize then ([dropCR buf], False) else ([], True)))"
  by pat_completeness auto
termination
  by (relation "measure (\<lambda>(maxTokenSize, buf). length buf)") auto

declare scanTokens.simps [simp del]

text \<open>The lines \<open>scanner.Scan()\<close> delivers, and \<open>scanner.Err()\<close> after the last one.\<close>

definition scanLines :: "nat \<Rightarrow> reader \<Rightarrow> string list" where
  "scanLines maxTokenSize r = fst (scanTokens maxTokenSize (content r))"

definition scanErr :: "nat \<Rightarrow> reader \<Rightarrow> scanError option" where
  "scanErr maxTokenSize r =
     (if snd (scanTokens maxTokenSize (content r)) then Some ErrTooLong
      else map_option ErrRead (failure r))"

text \<open>
  What a parser sends on its error channel: \<open>fmt.Errorf("line %d: %w", lineNum, err)\<close>
  and \<open>fmt.Errorf("scanner error: %w", err)\<close>.
\<close>

datatype reported = LineError nat parseError | ScannerError scanError

text \<open>
  \<open>LogfmtParser.Parse\<close>: the loop over the scanned lines, from the line number reached so
  far; the result is what is sent on the two channels, each in the order of sending.
\<close>

fun logfmtLines :: "nat \<Rightarrow> string list \<Rightarrow> LogEntry list \<times> reported list" where
  "logfmtLines lineNum [] = ([], [])"
| "logfmtLines lineNum (text # others) =
     (if TrimSpace text = [] then logfmtLines (lineNum + 1) others
      else
        (case parseLogfmt (TrimSpace text) of
          Inl err \<Rightarrow>
            (case logfmtLines (lineNum + 1) others of
              (entries, errors) \<Rightarrow> (entries, LineError (lineNum + 1) err # errors))
        | Inr entry \<Rightarrow>
            (case logfmtLines (lineNum + 1) others of
              (entries, errors) \<Rightarrow> (entry # entries, errors))))"

text \<open>\<open>bufio.NewScanner(r)\<close> has a buffer of at most \<open>MaxScanTokenSize = 64 * 1024\<close> bytes.\<close>

definition MaxScanTokenSize :: nat where
  "MaxScanTokenSize = 64 * 1024"

definition LogfmtParser_Parse :: "reader \<Rightarrow> LogEntry list \<times> reported list" where
  "LogfmtParser_Parse r = logfmtLines 0 (scanLines MaxScanTokenSize r)"

section \<open>Go's library\<close>

text \<open>
  A \<open>time.Time\<close> without a monotonic clock reading: the seconds since January 1 of
  year 1, 00:00:00 UTC, as an \<open>int64\<close>, the nanoseconds within the second, and the offset
  of its location, in seconds east of UTC. The zero \<open>time.Time{}\<close> is that instant, in
  UTC.
\<close>

record Time =
  ext :: "64 word"
  nsec :: nat
  zone :: int

definition zeroTime :: Time where
  "zeroTime = \<lparr>ext = 0, nsec = 0, zone = 0\<rparr>"

text \<open>\<open>t.Before(u)\<close>\<close>

definition Before :: "Time \<Rightarrow> Time \<Rightarrow> bool" where
  "Before t u \<longleftrightarrow> sint (ext t) < sint (ext u) \<or> (ext t = ext u \<and> nsec t < nsec u)"

text \<open>
  \<open>time.Unix(sec, 0).UTC()\<close>: the Unix epoch is 62135596800 seconds after the zero time.
\<close>

definition timeUnix :: "64 word \<Rightarrow> Time" where
  "timeUnix sec = \<lparr>ext = sec + 62135596800, nsec = 0, zone = 0\<rparr>"

text \<open>
  The functions of Go's standard library that work on floating-point numbers, regular
  expressions, dates, Unicode letters and the JSON encoding are parameters of the model:
  \<^item> \<open>ParseFloat\<close>: \<open>strconv.ParseFloat(s, 64)\<close>, \<open>None\<close> when it returns an error;
  \<^item> \<open>FormatFloat\<close>: \<open>fmt.Sprintf("%v", f)\<close> for a \<open>float64\<close>;
  \<^item> \<open>RegexpCompiles p\<close>: \<open>regexp.Compile(p)\<close> returns no error;
  \<^item> \<open>RegexpMatch p s\<close>: \<open>re.MatchString(s)\<close> for the \<open>re\<close> compiled from \<open>p\<close>;
  \<^item> \<open>ScanEpoch s\<close>: \<open>fmt.Sscanf(s, "%f", &f)\<close> returns no error and \<open>f > 1e9\<close>; the
    value is \<open>int64(f)\<close>;
  \<^item> \<open>ParseRFC3339 s\<close>: \<open>time.Parse(time.RFC3339, s)\<close>, \<open>None\<close> when it returns an error;
  \<^item> \<open>FormatClock t\<close>: \<open>t.Format("15:04:05")\<close>;
  \<^item> \<open>ToUpper\<close>, \<open>ToLower\<close>: \<open>strings.ToUpper\<close>, \<open>strings.ToLower\<close>;
  \<^item> \<open>RuneCount\<close>: \<open>utf8.RuneCountInString\<close>, the width of a string for \<open>fmt\<close>;
  \<^item> \<open>Marshal\<close>, \<open>MarshalIndent\<close>: \<open>json.Marshal(entry)\<close> and
    \<open>json.MarshalIndent(entry, "", "  ")\<close>, \<open>None\<close> when they return an error.
\<close>

record golib =
  ParseFloat :: "string \<Rightarrow> float64 option"
  FormatFloat :: "float64 \<Rightarrow> string"
  RegexpCompiles :: "string \<Rightarrow> bool"
  RegexpMatch :: "string \<Rightarrow> string \<Rightarrow> bool"
  ScanEpoch :: "string \<Rightarrow> 64 word option"
  ParseRFC3339 :: "string \<Rightarrow> Time option"
  FormatClock :: "Time \<Rightarrow> string"
  ToUpper :: "string \<Rightarrow> string"
  ToLower :: "string \<Rightarrow> string"
  RuneCount :: "string \<Rightarrow> nat"
  Marshal :: "LogEntry \<Rightarrow> string option"
  MarshalIndent :: "LogEntry \<Rightarrow> string option"

text \<open>\<open>strings.Join(elems, sep)\<close>\<close>

fun Join :: "string list \<Rightarrow> string \<Rightarrow> string" where
  "Join [] sep = []"
| "Join [x] sep = x"
| "Join (x # y # ys) sep = x @ sep @ Join (y # ys) sep"

text \<open>
  \<open>fmt.Sprintf("%v", value)\<close> for the values of a record: a string as it is, \<open>true\<close> or
  \<open>false\<close>, \<open><nil>\<close>, a slice as \<open>[a b]\<close> and a map as \<open>map[k:v k:v]\<close> with its keys in
  order.
\<close>

fun Sprint :: "golib \<Rightarrow> jvalue \<Rightarrow> string" where
  "Sprint L VNull = ''<nil>''"
| "Sprint L (VBool b) = (if b then ''true'' else ''false'')"
| "Sprint L (VNum f) = FormatFloat L f"
| "Sprint L (VStr s) = s"
| "Sprint L (VArr vs) = ''['' @ Join (map (Sprint L) vs) '' '' @ '']''"
| "Sprint L (VObj kvs) =
     ''map['' @
     Join (map (\<lambda>(k, s). k @ '':'' @ s)
             (sort_key fst (map (\<lambda>(k, v). (k, Sprint L v)) kvs))) '' '' @
     '']''"

section \<open>Filters\<close>

text \<open>
  \<open>FieldFilter\<close>. The compiled regular expression \<open>re\<close> is the pattern it was compiled
  from; \<open>None\<close> is the \<open>nil\<close> pointer.
\<close>

record FieldFilter =
  re :: "string option"
  Field :: string
  Operator :: string
  Value :: string

datatype filterError = InvalidRegex | InvalidExpression string

definition operators :: "string list" where
  "operators = [''!='', ''~'', ''>='', ''<='', ''='', ''>'', ''<'']"

text \<open>The loop of \<open>NewFieldFilter\<close> over the operators that are left to try.\<close>

fun tryOperators :: "golib \<Rightarrow> string \<Rightarrow> string list \<Rightarrow> filterError + FieldFilter" where
  "tryOperators L expression [] = Inl (InvalidExpression expression)"
| "tryOperators L expression (op # ops) =
     (case Index expression op of
        None \<Rightarrow> tryOperators L expression ops
      | Some idx \<Rightarrow>
          (let field = take idx expression;
               val = drop (idx + length op) expression;
               f = \<lparr>re = None, Field = field, Operator = op, Value = val\<rparr>
           in if op = ''~'' then
                (if RegexpCompiles L val then Inr (f\<lparr>re := Some val\<rparr>) else Inl InvalidRegex)
              else Inr f))"

definition NewFieldFilter :: "golib \<Rightarrow> string \<Rightarrow> filterError + FieldFilter" where
  "NewFieldFilter L expression = tryOperators L expression operators"

text \<open>
  A run-time panic of Go: a method called through a \<open>nil\<close> pointer that reads its
  fields, and an assignment to an entry of a \<open>nil\<close> map.
\<close>

datatype panic = NilDereference | NilMapAssignment

text \<open>
  \<open>FieldFilter.Match\<close>. The record is a Go map, which the caller and the method share:
  the model returns, with the result, the record as the call leaves it.
\<close>

definition FieldFilter_Match ::
  "golib \<Rightarrow> FieldFilter \<Rightarrow> LogEntry \<Rightarrow> (panic + bool) \<times> LogEntry" where
  "FieldFilter_Match L f entry =
     (case lookup entry (Field f) of
        None \<Rightarrow> (Inr False, entry)
      | Some val \<Rightarrow>
          if Operator f = ''='' then (Inr (Sprint L val = Value f), entry)
          else if Operator f = ''!='' then (Inr (Sprint L val \<noteq> Value f), entry)
          else if Operator f = ''>'' then (Inr (Sprint L val > Value f), entry)
          else if Operator f = ''<'' then (Inr (Sprint L val < Value f), entry)
          else if Operator f = ''>='' then (Inr (Sprint L val \<ge> Value f), entry)
          else if Operator f = ''<='' then (Inr (Sprint L val \<le> Value f), entry)
          else if Operator f = ''~'' then
            (case re f of
               None \<Rightarrow> (Inl NilDereference, entry)
             | Some pattern \<Rightarrow> (Inr (RegexpMatch L pattern (Sprint L val)), entry))
          else (Inr False, entry))"

text \<open>
  The implementations of the interface \<open>Filter\<close>: a \<open>FieldFilter\<close>, or a
  \<open>CompositeFilter\<close> with its child filters.
\<close>

datatype filter = FieldF FieldFilter | CompositeF "filter list"

text \<open>
  \<open>Match\<close> through the interface, and the loop of \<open>CompositeFilter.Match\<close> over the
  child filters that are left.
\<close>

fun Match :: "golib \<Rightarrow> filter \<Rightarrow> LogEntry \<Rightarrow> (panic + bool) \<times> LogEntry"
  and CompositeFilter_Match ::
    "golib \<Rightarrow> filter list \<Rightarrow> LogEntry \<Rightarrow> (panic + bool) \<times> LogEntry" where
  "Match L (FieldF f) entry = FieldFilter_Match L f entry"
| "Match L (CompositeF filters) entry = CompositeFilter_Match L filters entry"
| "CompositeFilter_Match L [] entry = (Inr True, entry)"
| "CompositeFilter_Match L (f # filters) entry =
     (case Match L f entry of
        (Inl p, entry') \<Rightarrow> (Inl p, entry')
      | (Inr matched, entry') \<Rightarrow>
          if \<not> matched then (Inr False, entry') else CompositeFilter_Match L filters entry')"

section \<open>The JSON parser\<close>

text \<open>
  The syntax of a JSON text, as \<open>encoding/json\<close> reads it: a number keeps its literal,
  a string is decoded, the members of an object are in the order of the text.
\<close>

datatype json =
    JNull
  | JBool bool
  | JNumber string
  | JString string
  | JArray "json list"
  | JObject "(string \<times> json) list"

definition isWS :: "char \<Rightarrow> bool" where
  "isWS c \<longleftrightarrow> c = CHR '' '' \<or> c = CHR 0x09 \<or> c = CHR 0x0D \<or> c = CHR 0x0A"

definition skipWS :: "string \<Rightarrow> string" where
  "skipWS s = dropWhile isWS s"

definition isDigit :: "char \<Rightarrow> bool" where
  "isDigit c \<longleftrightarrow> CHR ''0'' \<le> c \<and> c \<le> CHR ''9''"

text \<open>The value of a hexadecimal digit.\<close>

definition hexVal :: "char \<Rightarrow> nat option" where
  "hexVal c =
     (if CHR ''0'' \<le> c \<and> c \<le> CHR ''9'' then Some (of_char c - 48)
      else if CHR ''a'' \<le> c \<and> c \<le> CHR ''f'' then Some (of_char c - 87)
      else if CHR ''A'' \<le> c \<and> c \<le> CHR ''F'' then Some (of_char c - 55)
      else None)"

text \<open>\<open>getu4\<close>: the number that four hexadecimal digits at the head of the text denote.\<close>

definition hex4 :: "string \<Rightarrow> nat option" where
  "hex4 s =
     (case map hexVal (take 4 s) of
        [Some a, Some b, Some c, Some d] \<Rightarrow> Some (((a * 16 + b) * 16 + c) * 16 + d)
      | _ \<Rightarrow> None)"

text \<open>\<open>utf8.EncodeRune\<close> for a code point that is not a surrogate, up to U+10FFFF.\<close>

definition encodeRune :: "nat \<Rightarrow> string" where
  "encodeRune cp =
     (if cp < 0x80 then [char_of cp]
      else if cp < 0x800 then [char_of (0xC0 + cp div 64), char_of (0x80 + cp mod 64)]
      else if cp < 0x10000 then
        [char_of (0xE0 + cp div 4096), char_of (0x80 + cp div 64 mod 64),
         char_of (0x80 + cp mod 64)]
      else
        [char_of (0xF0 + cp div 262144), char_of (0x80 + cp div 4096 mod 64),
         char_of (0x80 + cp div 64 mod 64), char_of (0x80 + cp mod 64)])"

text \<open>The bytes at the head of a text lie in the given ranges, one range for each byte.\<close>

fun inRanges :: "(nat \<times> nat) list \<Rightarrow> string \<Rightarrow> bool" where
  "inRanges [] s = True"
| "inRanges ((lo, hi) # rs) [] = False"
| "inRanges ((lo, hi) # rs) (c # cs) = (lo \<le> of_char c \<and> of_char c \<le> hi \<and> inRanges rs cs)"

text \<open>
  \<open>utf8.DecodeRune\<close>: the width of the well-formed UTF-8 sequence at the head of a text,
  0 when there is none.
\<close>

definition runeLen :: "string \<Rightarrow> nat" where
  "runeLen s =
     (if inRanges [(0x00, 0x7F)] s then 1
      else if inRanges [(0xC2, 0xDF), (0x80, 0xBF)] s then 2
      else if inRanges [(0xE0, 0xE0), (0xA0, 0xBF), (0x80, 0xBF)] s
            \<or> inRanges [(0xE1, 0xEC), (0x80, 0xBF), (0x80, 0xBF)] s
            \<or> inRanges [(0xED, 0xED), (0x80, 0x9F), (0x80, 0xBF)] s
            \<or> inRanges [(0xEE, 0xEF), (0x80, 0xBF), (0x80, 0xBF)] s then 3
      else if inRanges [(0xF0, 0xF0), (0x90, 0xBF), (0x80, 0xBF), (0x80, 0xBF)] s
            \<or> inRanges [(0xF1, 0xF3), (0x80, 0xBF), (0x80, 0xBF), (0x80, 0xBF)] s
            \<or> inRanges [(0xF4, 0xF4), (0x80, 0x8F), (0x80, 0xBF), (0x80, 0xBF)] s then 4
      else 0)"

text \<open>
  A \<open>\\u\<close> escape, from its four digits on: the bytes it decodes to and the number of
  bytes of the text it takes. A high surrogate takes a low surrogate that follows it in a
  second escape; a surrogate without its pair decodes to U+FFFD.
\<close>

definition unicodeEscape :: "string \<Rightarrow> (string \<times> nat) option" where
  "unicodeEscape s =
     (case hex4 s of
        None \<Rightarrow> None
      | Some rr \<Rightarrow>
          if 0xD800 \<le> rr \<and> rr < 0xE000 then
            (case (if take 2 (drop 4 s) = [backslash, CHR ''u''] then hex4 (drop 6 s) else None) of
               Some rr1 \<Rightarrow>
                 if rr < 0xDC00 \<and> 0xDC00 \<le> rr1 \<and> rr1 < 0xE000 then
                   Some (encodeRune ((rr - 0xD800) * 1024 + (rr1 - 0xDC00) + 0x10000), 10)
                 else Some (encodeRune 0xFFFD, 4)
             | None \<Rightarrow> Some (encodeRune 0xFFFD, 4))
          else Some (encodeRune rr, 4))"

text \<open>
  A string, from behind its opening quote on: the decoded string and the text behind the
  closing quote. A byte below 0x20 is a syntax error; a byte that is not part of
  well-formed UTF-8 decodes to U+FFFD.
\<close>

function stringBody :: "string \<Rightarrow> (string \<times> string) option" where
  "stringBody [] = None"
| "stringBody (c # cs) =
     (if c = dquote then Some ([], cs)
      else if c = backslash then
        (case cs of
           [] \<Rightarrow> None
         | e # r \<Rightarrow>
             if e = dquote \<or> e = backslash \<or> e = CHR ''/'' then
               map_option (\<lambda>(str, rest). (e # str, rest)) (stringBody r)
             else if e = CHR ''b'' then
               map_option (\<lambda>(str, rest). (CHR 0x08 # str, rest)) (stringBody r)
             else if e = CHR ''f'' then
               map_option (\<lambda>(str, rest). (CHR 0x0C # str, rest)) (stringBody r)
             else if e = CHR ''n'' then
               map_option (\<lambda>(str, rest). (CHR 0x0A # str, rest)) (stringBody r)
             else if e = CHR ''r'' then
               map_option (\<lambda>(str, rest). (CHR 0x0D # str, rest)) (stringBody r)
             else if e = CHR ''t'' then
               map_option (\<lambda>(str, rest). (CHR 0x09 # str, rest)) (stringBody r)
             else if e = CHR ''u'' then
               (case unicodeEscape r of
                  None \<Rightarrow> None
                | Some (bytes, n) \<Rightarrow>
                    map_option (\<lambda>(str, rest). (bytes @ str, rest)) (stringBody (drop n r)))
             else None)
      else if c < CHR 0x20 then None
      else if c < CHR 0x80 then map_option (\<lambda>(str, rest). (c # str, rest)) (stringBody cs)
      else if runeLen (c # cs) = 0 then
        map_option (\<lambda>(str, rest). (encodeRune 0xFFFD @ str, rest)) (stringBody cs)
      else
        map_option (\<lambda>(str, rest). (take (runeLen (c # cs)) (c # cs) @ str, rest))
          (stringBody (drop (runeLen (c # cs)) (c # cs))))"
  by pat_completeness auto
termination
  by (relation "measure length") auto

declare stringBody.simps [simp del]

text \<open>
  A number: its literal and the text behind it. The grammar is an optional minus sign, the
  digit 0 or a digit from 1 to 9 with more digits, an optional fraction of a point and
  digits, and an optional exponent of \<open>e\<close> or \<open>E\<close>, a sign and digits.
\<close>

definition numberInt :: "string \<Rightarrow> (string \<times> string) option" where
  "numberInt s =
     (case s of
        [] \<Rightarrow> None
      | c # cs \<Rightarrow>
          if c = CHR ''0'' then Some ([c], cs)
          else if CHR ''1'' \<le> c \<and> c \<le> CHR ''9'' then
            Some (c # takeWhile isDigit cs, dropWhile isDigit cs)
          else None)"

definition numberFrac :: "string \<Rightarrow> (string \<times> string) option" where
  "numberFrac s =
     (case s of
        c # cs \<Rightarrow>
          if c = CHR ''.'' then
            (if takeWhile isDigit cs = [] then None
             else Some (c # takeWhile isDigit cs, dropWhile isDigit cs))
          else Some ([], s)
      | [] \<Rightarrow> Some ([], s))"

definition numberExp :: "string \<Rightarrow> (string \<times> string) option" where
  "numberExp s =
     (case s of
        c # cs \<Rightarrow>
          if c = CHR ''e'' \<or> c = CHR ''E'' then
            (case cs of
               sg # ds \<Rightarrow>
                 if sg = CHR ''+'' \<or> sg = CHR ''-'' then
                   (if takeWhile isDigit ds = [] then None
                    else Some (c # sg # takeWhile isDigit ds, dropWhile isDigit ds))
                 else if takeWhile isDigit cs = [] then None
                 else Some (c # takeWhile isDigit cs, dropWhile isDigit cs)
             | [] \<Rightarrow> None)
          else Some ([], s)
      | [] \<Rightarrow> Some ([], s))"

definition parseNumber :: "string \<Rightarrow> (string \<times> string) option" where
  "parseNumber s =
     (case (if HasPrefix s ''-'' then numberInt (drop 1 s) else numberInt s) of
        None \<Rightarrow> None
      | Some (ip, s1) \<Rightarrow>
          (case numberFrac s1 of
             None \<Rightarrow> None
           | Some (fp, s2) \<Rightarrow>
               (case numberExp s2 of
                  None \<Rightarrow> None
                | Some (ep, s3) \<Rightarrow>
                    Some ((if HasPrefix s ''-'' then ''-'' else []) @ ip @ fp @ ep, s3))))"

text \<open>The deepest nesting of arrays and objects that \<open>encoding/json\<close> reads.\<close>

definition maxNestingDepth :: nat where
  "maxNestingDepth = 10000"

lemma skipWS_Cons: "skipWS s = c # cs \<Longrightarrow> length cs < length s"
proof -
  assume "skipWS s = c # cs"
  then have "length (c # cs) \<le> length s"
    unfolding skipWS_def by (metis length_dropWhile_le)
  then show ?thesis by simp
qed

text \<open>
  A value with the white space in front of it, inside \<open>depth\<close> arrays and objects: the
  value and the text behind it. \<open>parseElements\<close> reads the elements of an array up to its
  closing bracket, \<open>parseMembers\<close> the members of an object up to its closing brace.
\<close>

function parseValue :: "nat \<Rightarrow> string \<Rightarrow> (json \<times> string) option"
  and parseElements :: "nat \<Rightarrow> string \<Rightarrow> (json list \<times> string) option"
  and parseMembers :: "nat \<Rightarrow> string \<Rightarrow> ((string \<times> json) list \<times> string) option" where
  "parseValue depth s =
     (case skipWS s of
        [] \<Rightarrow> None
      | c # cs \<Rightarrow>
          if c = CHR ''{'' then
            (if depth \<ge> maxNestingDepth then None
             else
               (case skipWS cs of
                  [] \<Rightarrow> None
                | c' # cs' \<Rightarrow>
                    if c' = CHR ''}'' then Some (JObject [], cs')
                    else map_option (\<lambda>(ms, rest). (JObject ms, rest))
                           (parseMembers (Suc depth) cs)))
          else if c = CHR ''['' then
            (if depth \<ge> maxNestingDepth then None
             else
               (case skipWS cs of
                  [] \<Rightarrow> None
                | c' # cs' \<Rightarrow>
                    if c' = CHR '']'' then Some (JArray [], cs')
                    else map_option (\<lambda>(vs, rest). (JArray vs, rest))
                           (parseElements (Suc depth) cs)))
          else if c = dquote then map_option (\<lambda>(str, rest). (JString str, rest)) (stringBody cs)
          else if c = CHR ''-'' \<or> isDigit c then
            map_option (\<lambda>(lit, rest). (JNumber lit, rest)) (parseNumber (c # cs))
          else if HasPrefix (c # cs) ''true'' then Some (JBool True, drop 4 (c # cs))
          else if HasPrefix (c # cs) ''false'' then Some (JBool False, drop 5 (c # cs))
          else if HasPrefix (c # cs) ''null'' then Some (JNull, drop 4 (c # cs))
          else None)"
| "parseElements depth s =
     (case parseValue depth s of
        None \<Rightarrow> None
      | Some (v, r) \<Rightarrow>
          if length r < length s then
            (case skipWS r of
               [] \<Rightarrow> None
             | c # r' \<Rightarrow>
                 if c = CHR '','' then
                   map_option (\<lambda>(vs, rest). (v # vs, rest)) (parseElements depth r')
                 else if c = CHR '']'' then Some ([v], r')
                 else None)
          else None)"
| "parseMembers depth s =
     (case skipWS s of
        [] \<Rightarrow> None
      | q # ks \<Rightarrow>
          if q = dquote then
            (case stringBody ks of
               None \<Rightarrow> None
             | Some (key, r0) \<Rightarrow>
                 (case skipWS r0 of
                    [] \<Rightarrow> None
                  | colon # r1 \<Rightarrow>
                      if colon = CHR '':'' \<and> length r1 < length s then
                        (case parseValue depth r1 of
                           None \<Rightarrow> None
                         | Some (v, r) \<Rightarrow>
                             if length r < length s then
                               (case skipWS r of
                                  [] \<Rightarrow> None
                                | c # r' \<Rightarrow>
                                    if c = CHR '','' then
                                      map_option (\<lambda>(ms, rest). ((key, v) # ms, rest))
                                        (parseMembers depth r')
                                    else if c = CHR ''}'' then Some ([(key, v)], r')
                                    else None)
                             else None)
                      else None))
          else None)"
  by pat_completeness auto
termination
  by (relation "measure (\<lambda>x. case x of
        Inl (depth, s) \<Rightarrow> 2 * length s + 1
      | Inr (Inl (depth, s)) \<Rightarrow> 2 * length s + 2
      | Inr (Inr (depth, s)) \<Rightarrow> 2 * length s + 2)")
    (auto dest: skipWS_Cons)

declare parseValue.simps [simp del] parseElements.simps [simp del] parseMembers.simps [simp del]

text \<open>A JSON text: one value, with white space around it and nothing else.\<close>

definition parseJSON :: "string \<Rightarrow> json option" where
  "parseJSON s =
     (case parseValue 0 s of
        None \<Rightarrow> None
      | Some (j, rest) \<Rightarrow> if skipWS rest = [] then Some j else None)"

text \<open>
  The values that \<open>json.Unmarshal\<close> stores for a JSON value in a variable of type
  \<open>any\<close>: \<open>nil\<close>, a \<open>bool\<close>, a \<open>float64\<close>, a \<open>string\<close>, a slice, or a map, in which of
  two members with one key the later stays. A number that \<open>strconv.ParseFloat\<close> refuses
  makes the call return an error.
\<close>

fun convert :: "golib \<Rightarrow> json \<Rightarrow> jvalue option"
  and convertAll :: "golib \<Rightarrow> json list \<Rightarrow> jvalue list option"
  and convertMembers :: "golib \<Rightarrow> fields \<Rightarrow> (string \<times> json) list \<Rightarrow> fields option" where
  "convert L JNull = Some VNull"
| "convert L (JBool b) = Some (VBool b)"
| "convert L (JNumber lit) = map_option VNum (ParseFloat L lit)"
| "convert L (JString str) = Some (VStr str)"
| "convert L (JArray js) = map_option VArr (convertAll L js)"
| "convert L (JObject ms) = map_option VObj (convertMembers L [] ms)"
| "convertAll L [] = Some []"
| "convertAll L (j # js) =
     (case convert L j of
        None \<Rightarrow> None
      | Some v \<Rightarrow> map_option ((#) v) (convertAll L js))"
| "convertMembers L acc [] = Some acc"
| "convertMembers L acc ((key, j) # ms) =
     (case convert L j of
        None \<Rightarrow> None
      | Some v \<Rightarrow> convertMembers L (assign acc key v) ms)"

text \<open>
  \<open>json.Unmarshal([]byte(line), &entry)\<close> for the \<open>nil\<close> map \<open>entry\<close> of type \<open>LogEntry\<close>:
  a text that is not JSON is a syntax error; an object is stored as a map; the literal
  \<open>null\<close> leaves the map \<open>nil\<close> and is no error; any other value is a type error.
\<close>

definition Unmarshal :: "golib \<Rightarrow> string \<Rightarrow> parseError + LogEntry" where
  "Unmarshal L line =
     (case parseJSON line of
        None \<Rightarrow> Inl JSONSyntaxError
      | Some JNull \<Rightarrow> Inr NilEntry
      | Some (JObject ms) \<Rightarrow>
          (case convertMembers L [] ms of
             None \<Rightarrow> Inl JSONUnmarshalTypeError
           | Some fs \<Rightarrow> Inr (Entry fs))
      | Some _ \<Rightarrow> Inl JSONUnmarshalTypeError)"

text \<open>
  \<open>JSONParser.Parse\<close>: the loop over the scanned lines, from the line number reached so
  far, and the whole method, with the scanner's buffer of \<open>1024*1024\<close> bytes and the
  scanner's error sent last.
\<close>

fun jsonLines :: "golib \<Rightarrow> nat \<Rightarrow> string list \<Rightarrow> LogEntry list \<times> reported list" where
  "jsonLines L lineNum [] = ([], [])"
| "jsonLines L lineNum (text # others) =
     (if TrimSpace text = [] then jsonLines L (lineNum + 1) others
      else
        (case Unmarshal L (TrimSpace text) of
          Inl err \<Rightarrow>
            (case jsonLines L (lineNum + 1) others of
              (entries, errors) \<Rightarrow> (entries, LineError (lineNum + 1) err # errors))
        | Inr entry \<Rightarrow>
            (case jsonLines L (lineNum + 1) others of
              (entries, errors) \<Rightarrow> (entry # entries, errors))))"

definition JSONParser_Parse :: "golib \<Rightarrow> reader \<Rightarrow> LogEntry list \<times> reported list" where
  "JSONParser_Parse L r =
     (case jsonLines L 0 (scanLines (1024 * 1024) r) of
        (entries, errors) \<Rightarrow>
          (entries,
           errors @ (case scanErr (1024 * 1024) r of
                       None \<Rightarrow> []
                     | Some err \<Rightarrow> [ScannerError err])))"

section \<open>The format sniffer\<close>

text \<open>
  \<open>br.ReadString('\n')\<close> on a \<open>bufio.Reader\<close>: the bytes up to the first newline, with
  it, and no error; or, when there is no newline, all the bytes that are left and the
  error that ends the stream. The third component is the reader after the call.
\<close>

datatype readError = EOF | IOError ioError

definition ReadString :: "reader \<Rightarrow> string \<times> readError option \<times> reader" where
  "ReadString br =
     (case IndexByte (content br) newline of
        Some i \<Rightarrow> (take (i + 1) (content br), None, br\<lparr>content := drop (i + 1) (content br)\<rparr>)
      | None \<Rightarrow>
          (content br,
           Some (case failure br of None \<Rightarrow> EOF | Some e \<Rightarrow> IOError e),
           br\<lparr>content := []\<rparr>))"

text \<open>\<open>io.MultiReader(strings.NewReader(line), br)\<close>\<close>

definition MultiReader :: "string \<Rightarrow> reader \<Rightarrow> reader" where
  "MultiReader line br = br\<lparr>content := line @ content br\<rparr>"

text \<open>\<open>io.ReadAll(r)\<close>: all the bytes of the reader, or the error that ends it.\<close>

definition ReadAll :: "reader \<Rightarrow> ioError + string" where
  "ReadAll r = (case failure r of None \<Rightarrow> Inr (content r) | Some e \<Rightarrow> Inl e)"

datatype sniffError = AutoDetecting ioError

lemma ReadString_shorter:
  "ReadString br = (line, None, br') \<Longrightarrow> length (content br') < length (content br)"
  by (auto simp: ReadString_def split: option.splits dest: IndexByte_less)

text \<open>\<open>sniffFormat\<close>, from \<open>br := bufio.NewReader(r)\<close> on: the loop over the lines.\<close>

function sniffFormat :: "reader \<Rightarrow> sniffError + string \<times> reader" where
  "sniffFormat br =
     (case ReadString br of
        (line, err, br') \<Rightarrow>
          if TrimSpace line \<noteq> [] then
            (if HasPrefix (TrimSpace line) ''{'' then Inr (''json'', MultiReader line br')
             else Inr (''logfmt'', MultiReader line br'))
          else
            (case err of
               Some EOF \<Rightarrow> Inr (''json'', br')
             | Some (IOError e) \<Rightarrow> Inl (AutoDetecting e)
             | None \<Rightarrow> sniffFormat br'))"
  by pat_completeness auto
termination
  by (relation "measure (\<lambda>br. length (content br))")
    (auto dest: ReadString_shorter [OF sym])

declare sniffFormat.simps [simp del]

section \<open>Statistics\<close>

text \<open>
  \<open>statEntry\<close>, with its fields \<open>Value\<close> and \<open>Count\<close>. A count is a Go \<open>int\<close>; it is a
  natural number here, since it counts records held in memory.
\<close>

record statEntry =
  statValue :: string
  statCount :: nat

text \<open>\<open>counts[key]++\<close> on the map \<open>counts\<close>, an association list.\<close>

fun increment :: "(string \<times> nat) list \<Rightarrow> string \<Rightarrow> (string \<times> nat) list" where
  "increment [] key = [(key, 1)]"
| "increment ((k, n) # counts) key =
     (if k = key then (k, n + 1) # counts else (k, n) # increment counts key)"

text \<open>The key a record is counted under: the field's value as a string, or \<open>(none)\<close>.\<close>

definition statKey :: "golib \<Rightarrow> string \<Rightarrow> LogEntry \<Rightarrow> string" where
  "statKey L field entry =
     (case lookup entry field of Some v \<Rightarrow> Sprint L v | None \<Rightarrow> ''(none)'')"

text \<open>The first loop of \<open>collectStats\<close>, over the records the channel delivers.\<close>

fun tally ::
  "golib \<Rightarrow> (LogEntry \<Rightarrow> bool) \<Rightarrow> string \<Rightarrow> (string \<times> nat) list \<Rightarrow> LogEntry list
    \<Rightarrow> (string \<times> nat) list" where
  "tally L match field counts [] = counts"
| "tally L match field counts (entry # entries) =
     (if match entry then tally L match field (increment counts (statKey L field entry)) entries
      else tally L match field counts entries)"

text \<open>The \<open>less\<close> function that \<open>collectStats\<close> gives to \<open>sort.Slice\<close>.\<close>

definition statLess :: "statEntry \<Rightarrow> statEntry \<Rightarrow> bool" where
  "statLess a b =
     (if statCount a \<noteq> statCount b then statCount a > statCount b
      else statValue a < statValue b)"

text \<open>
  \<open>sort.Slice\<close> puts the slice in an order in which no element is \<open>less\<close> than an
  earlier one. It is modelled by insertion sort.
\<close>

fun insertStat :: "statEntry \<Rightarrow> statEntry list \<Rightarrow> statEntry list" where
  "insertStat x [] = [x]"
| "insertStat x (y # ys) = (if statLess x y then x # y # ys else y # insertStat x ys)"

definition sortStats :: "statEntry list \<Rightarrow> statEntry list" where
  "sortStats xs = foldr insertStat xs []"

text \<open>
  The order of \<open>statLess\<close> is the order of the pairs of the negated count and the value.
\<close>

definition statOrd :: "statEntry \<Rightarrow> int \<times> string" where
  "statOrd a = (- int (statCount a), statValue a)"

text \<open>
  \<open>collectStats\<close>. The second loop, \<open>for v, n := range counts\<close>, visits the map in an
  order that Go does not fix; the model visits the association list in its order, and
  \<open>sortStats_order_irrelevant\<close> below shows that the order does not matter.
\<close>

definition collectStats ::
  "golib \<Rightarrow> LogEntry list \<Rightarrow> (LogEntry \<Rightarrow> bool) \<Rightarrow> string \<Rightarrow> statEntry list" where
  "collectStats L entries match field =
     sortStats (map (\<lambda>(v, n). \<lparr>statValue = v, statCount = n\<rparr>) (tally L match field [] entries))"

section \<open>Merging sources\<close>

text \<open>\<open>mergedEntry\<close>, with its fields \<open>entry\<close> and \<open>t\<close>.\<close>

record mergedEntry =
  m_entry :: LogEntry
  m_t :: Time

text \<open>The loop of \<open>parseTimestampForSort\<close> over the field names that are left.\<close>

fun timestampLoop :: "golib \<Rightarrow> LogEntry \<Rightarrow> string list \<Rightarrow> Time" where
  "timestampLoop L entry [] = zeroTime"
| "timestampLoop L entry (key # keys) =
     (case lookup entry key of
        None \<Rightarrow> timestampLoop L entry keys
      | Some val \<Rightarrow>
          (case ScanEpoch L (Sprint L val) of
             Some sec \<Rightarrow> timeUnix sec
           | None \<Rightarrow>
               (case ParseRFC3339 L (Sprint L val) of
                  Some t \<Rightarrow> t
                | None \<Rightarrow> timestampLoop L entry keys)))"

definition parseTimestampForSort :: "golib \<Rightarrow> LogEntry \<Rightarrow> Time" where
  "parseTimestampForSort L entry = timestampLoop L entry [''time'', ''ts'', ''timestamp'']"

text \<open>
  The loop of \<open>loadEntries\<close> over the records that the parser delivers. The assignment
  \<open>entry["_source"] = source\<close> panics on a \<open>nil\<close> map.
\<close>

fun loadLoop :: "golib \<Rightarrow> string \<Rightarrow> LogEntry list \<Rightarrow> panic + mergedEntry list" where
  "loadLoop L source [] = Inr []"
| "loadLoop L source (NilEntry # entries) = Inl NilMapAssignment"
| "loadLoop L source (Entry fs # entries) =
     (case loadLoop L source entries of
        Inl p \<Rightarrow> Inl p
      | Inr result \<Rightarrow>
          Inr (\<lparr>m_entry = Entry (assign fs ''_source'' (VStr source)),
                m_t = parseTimestampForSort L (Entry (assign fs ''_source'' (VStr source)))\<rparr>
               # result))"

text \<open>
  \<open>loadEntries(r, p, source)\<close>, for a parser \<open>p\<close> given as its \<open>Parse\<close> method. The errors
  of the parser go to the standard error stream.
\<close>

definition loadEntries ::
  "golib \<Rightarrow> reader \<Rightarrow> (reader \<Rightarrow> LogEntry list \<times> reported list) \<Rightarrow> string
    \<Rightarrow> panic + mergedEntry list" where
  "loadEntries L r p source = loadLoop L source (fst (p r))"

text \<open>
  \<open>sort.SliceStable(all, less)\<close> with \<open>less(i, j) = all[i].t.Before(all[j].t)\<close>: a stable
  sort, modelled by insertion sort. An element goes behind the elements that are before
  it in time, and in front of the others.
\<close>

fun insertByTime :: "mergedEntry \<Rightarrow> mergedEntry list \<Rightarrow> mergedEntry list" where
  "insertByTime x [] = [x]"
| "insertByTime x (y # ys) =
     (if Before (m_t y) (m_t x) then y # insertByTime x ys else x # y # ys)"

definition SliceStable :: "mergedEntry list \<Rightarrow> mergedEntry list" where
  "SliceStable xs = foldr insertByTime xs []"

text \<open>
  The order of \<open>Before\<close> is the order of the pairs of seconds and nanoseconds.
\<close>

definition timeKey :: "Time \<Rightarrow> int \<times> nat" where
  "timeKey t = (sint (ext t), nsec t)"

section \<open>Formatters\<close>

text \<open>
  \<open>Format(w, entry)\<close> of each formatter is modelled by the text that it passes to the
  writer \<open>w\<close>, or the error that keeps it from writing; the error that the writer may
  return is the writer's. As for \<open>Match\<close>, the second component of the result is the
  record as the call leaves it.
\<close>

datatype formatError = MarshalFailed

text \<open>\<open>JSONFormatter\<close>, with its field \<open>Pretty\<close>.\<close>

definition JSONFormatter_Format ::
  "golib \<Rightarrow> bool \<Rightarrow> LogEntry \<Rightarrow> (formatError + string) \<times> LogEntry" where
  "JSONFormatter_Format L pretty entry =
     (case (if pretty then MarshalIndent L entry else Marshal L entry) of
        None \<Rightarrow> (Inl MarshalFailed, entry)
      | Some data \<Rightarrow> (Inr (data @ [newline]), entry))"

text \<open>The ANSI escape codes.\<close>

definition colorReset :: string where "colorReset = escape # ''[0m''"
definition colorRed :: string where "colorRed = escape # ''[31m''"
definition colorGreen :: string where "colorGreen = escape # ''[32m''"
definition colorYellow :: string where "colorYellow = escape # ''[33m''"
definition colorGray :: string where "colorGray = escape # ''[90m''"
definition colorBold :: string where "colorBold = escape # ''[1m''"

text \<open>\<open>TextFormatter\<close>\<close>

record TextFormatter =
  Color :: bool
  Fields :: "string list"

text \<open>\<open>extractString(entry, keys...)\<close>\<close>

fun extractString :: "golib \<Rightarrow> LogEntry \<Rightarrow> string list \<Rightarrow> string" where
  "extractString L entry [] = []"
| "extractString L entry (key # keys) =
     (case lookup entry key of
        Some val \<Rightarrow> Sprint L val
      | None \<Rightarrow> extractString L entry keys)"

text \<open>\<open>fmt.Sprintf("[%-5s]", s)\<close>: \<open>s\<close> with spaces behind it up to the width 5.\<close>

definition padLevel :: "golib \<Rightarrow> string \<Rightarrow> string" where
  "padLevel L s = ''['' @ s @ replicate (5 - RuneCount L s) (CHR '' '') @ '']''"

definition colorizeLevel :: "golib \<Rightarrow> TextFormatter \<Rightarrow> string \<Rightarrow> string" where
  "colorizeLevel L f level =
     (if \<not> Color f then padLevel L (ToUpper L level)
      else if ToLower L level \<in> {''error'', ''err'', ''fatal'', ''crit''} then
        colorRed @ colorBold @ ''[ERROR]'' @ colorReset
      else if ToLower L level \<in> {''warn'', ''warning''} then
        colorYellow @ colorBold @ ''[WARN ]'' @ colorReset
      else if ToLower L level \<in> {''info'', ''information''} then
        colorGreen @ colorBold @ ''[INFO ]'' @ colorReset
      else colorGray @ ''['' @ ToUpper L level @ '']'' @ colorReset)"

definition formatTimestamp :: "golib \<Rightarrow> string \<Rightarrow> string" where
  "formatTimestamp L val =
     (if val = [] then colorGray @ ''               '' @ colorReset
      else
        (case ScanEpoch L val of
           Some sec \<Rightarrow> FormatClock L (timeUnix sec)
         | None \<Rightarrow>
             (case ParseRFC3339 L val of
                Some t \<Rightarrow> FormatClock L t
              | None \<Rightarrow> if length val > 15 then take 15 val else val)))"

definition canonical :: "string list" where
  "canonical = [''time'', ''ts'', ''timestamp'', ''level'', ''lvl'', ''severity'',
     ''message'', ''msg'', ''text'']"

text \<open>The two loops of \<open>TextFormatter.Format\<close> that collect the extra fields.\<close>

fun requestedExtras :: "golib \<Rightarrow> LogEntry \<Rightarrow> string list \<Rightarrow> string list" where
  "requestedExtras L entry [] = []"
| "requestedExtras L entry (field # others) =
     (case lookup entry field of
        Some val \<Rightarrow> (field @ ''='' @ Sprint L val) # requestedExtras L entry others
      | None \<Rightarrow> requestedExtras L entry others)"

definition otherExtras :: "golib \<Rightarrow> LogEntry \<Rightarrow> string list" where
  "otherExtras L entry =
     map (\<lambda>k. k @ ''='' @ (case lookup entry k of Some val \<Rightarrow> Sprint L val | None \<Rightarrow> ''<nil>''))
       (sort (filter (\<lambda>k. k \<notin> set canonical) (keysOf entry)))"

definition TextFormatter_Format ::
  "golib \<Rightarrow> TextFormatter \<Rightarrow> LogEntry \<Rightarrow> (formatError + string) \<times> LogEntry" where
  "TextFormatter_Format L f entry =
     (let timestamp = extractString L entry [''time'', ''ts'', ''timestamp''];
          level = extractString L entry [''level'', ''lvl'', ''severity''];
          message = extractString L entry [''message'', ''msg'', ''text''];
          levelStr = colorizeLevel L f level;
          timeStr = formatTimestamp L timestamp;
          extras = (if length (Fields f) > 0 then requestedExtras L entry (Fields f)
                    else otherExtras L entry);
          extaStr = (if length extras > 0 then
                       (if Color f then '' '' @ colorGray @ Join extras '' '' @ colorReset
                        else '' '' @ Join extras '' '')
                     else [])
      in (Inr (timeStr @ '' '' @ levelStr @ '' '' @ message @ extaStr @ [newline]), entry))"

text \<open>
  \<open>LogfmtFormatter.Format\<close>. \<open>quoteValue\<close> is the body of its loop for one value:
  \<open>strings.ContainsAny(v, " \t\"")\<close> and \<open>strings.ReplaceAll(v, `"`, `\"`)\<close>.
\<close>

definition quoteValue :: "string \<Rightarrow> string" where
  "quoteValue v =
     (if \<exists>c\<in>set v. c = CHR '' '' \<or> c = CHR 0x09 \<or> c = dquote then
        [dquote] @ concat (map (\<lambda>c. if c = dquote then [backslash, dquote] else [c]) v) @ [dquote]
      else v)"

definition LogfmtFormatter_Format ::
  "golib \<Rightarrow> LogEntry \<Rightarrow> (formatError + string) \<times> LogEntry" where
  "LogfmtFormatter_Format L entry =
     (let parts =
        map (\<lambda>k. k @ ''='' @
                quoteValue (case lookup entry k of Some val \<Rightarrow> Sprint L val | None \<Rightarrow> ''<nil>''))
          (sort (keysOf entry))
      in (Inr (Join parts '' '' @ [newline]), entry))"

section \<open>A library for the examples\<close>

text \<open>
  The examples below are evaluated with this library. Their records hold strings and
  booleans only, of ASCII letters in lower case, and their filters no regular expression;
  the functions on numbers, on regular expressions, on clock times and on the JSON
  encoding are never called, and their values here are place holders. No example has a
  string that \<open>fmt.Sscanf\<close> reads as a number above \<open>1e9\<close>. Among the strings of the
  examples, \<open>time.Parse\<close> accepts one as RFC 3339: \<open>0000-12-31T23:59:59Z\<close>, the last
  second of year 0, which is one second before the zero time (RFC 3339 and Go's parser
  take the years 0000 to 9999).
\<close>

definition upperASCII :: "char \<Rightarrow> char" where
  "upperASCII c =
     (case map_of (zip ''abcdefghijklmnopqrstuvwxyz'' ''ABCDEFGHIJKLMNOPQRSTUVWXYZ'') c of
        Some u \<Rightarrow> u
      | None \<Rightarrow> c)"

definition sampleLib :: golib where
  "sampleLib =
     \<lparr>ParseFloat = (\<lambda>s. None), FormatFloat = (\<lambda>f. []), RegexpCompiles = (\<lambda>p. False),
      RegexpMatch = (\<lambda>p s. False), ScanEpoch = (\<lambda>s. None),
      ParseRFC3339 = (\<lambda>s. if s = ''0000-12-31T23:59:59Z''
         then Some \<lparr>ext = - 1, nsec = 0, zone = 0\<rparr> else None),
      FormatClock = (\<lambda>t. []), ToUpper = map upperASCII, ToLower = (\<lambda>s. s),
      RuneCount = length, Marshal = (\<lambda>e. None), MarshalIndent = (\<lambda>e. None)\<rparr>"

section \<open>Properties of the strings\<close>

text \<open>
  On text of ASCII bytes only, \<open>TrimSpace\<close> drops the six ASCII white-space characters
  from both ends.
\<close>

lemma spaceWidth_Nil: "spaceWidth ws [] = 0"
  by (induction ws) auto

lemma spaceWidth_append:
  "spaceWidth (ws @ vs) s = (if spaceWidth ws s \<noteq> 0 then spaceWidth ws s else spaceWidth vs s)"
  by (induction ws) auto

lemma spaceWidth_single:
  "spaceWidth (map (\<lambda>c. [c]) cs) (x # xs) = (if x \<in> set cs then 1 else 0)"
  by (induction cs) auto

lemma spaceWidth_other_head:
  "\<forall>w\<in>set ws. w \<noteq> [] \<longrightarrow> hd w \<noteq> x \<Longrightarrow> spaceWidth ws (x # xs) = 0"
proof (induction ws)
  case Nil
  then show ?case by simp
next
  case (Cons w ws)
  then show ?case by (cases w) auto
qed

lemma unicodeSpaces_high:
  "\<forall>w\<in>set unicodeSpaces. w \<noteq> [] \<and> CHR 0x80 \<le> hd w \<and> CHR 0x80 \<le> last w"
  by (simp add: unicodeSpaces_def less_eq_char_def)

lemma spaceWidth_ascii:
  assumes "x < CHR 0x80"
  shows "spaceWidth spaceRunes (x # xs) = (if x \<in> set asciiSpaces then 1 else 0)"
    and "spaceWidth (map rev spaceRunes) (x # xs) = (if x \<in> set asciiSpaces then 1 else 0)"
proof -
  have "\<forall>w\<in>set unicodeSpaces. w \<noteq> [] \<longrightarrow> hd w \<noteq> x"
    using unicodeSpaces_high assms by auto
  then have 1: "spaceWidth unicodeSpaces (x # xs) = 0" by (rule spaceWidth_other_head)
  have "\<forall>w\<in>set (map rev unicodeSpaces). w \<noteq> [] \<longrightarrow> hd w \<noteq> x"
    using unicodeSpaces_high assms by (auto simp: hd_rev)
  then have 2: "spaceWidth (map rev unicodeSpaces) (x # xs) = 0" by (rule spaceWidth_other_head)
  show "spaceWidth spaceRunes (x # xs) = (if x \<in> set asciiSpaces then 1 else 0)"
    by (simp add: spaceRunes_def spaceWidth_append spaceWidth_single 1)
  have "map rev spaceRunes = map (\<lambda>c. [c]) asciiSpaces @ map rev unicodeSpaces"
    by (simp add: spaceRunes_def)
  then show "spaceWidth (map rev spaceRunes) (x # xs) = (if x \<in> set asciiSpaces then 1 else 0)"
    by (simp add: spaceWidth_append spaceWidth_single 2)
qed

lemma trimLeftRunes_ascii:
  assumes "\<forall>c\<in>set s. c < CHR 0x80"
  shows "trimLeftRunes spaceRunes s = dropWhile (\<lambda>c. c \<in> set asciiSpaces) s \<and>
    trimLeftRunes (map rev spaceRunes) s = dropWhile (\<lambda>c. c \<in> set asciiSpaces) s"
  using assms
proof (induction s)
  case Nil
  show ?case by (simp add: trimLeftRunes.simps spaceWidth_Nil)
next
  case (Cons c cs)
  then have c: "c < CHR 0x80" and IH: "trimLeftRunes spaceRunes cs =
      dropWhile (\<lambda>c. c \<in> set asciiSpaces) cs"
    "trimLeftRunes (map rev spaceRunes) cs = dropWhile (\<lambda>c. c \<in> set asciiSpaces) cs"
    by auto
  have "trimLeftRunes spaceRunes (c # cs) = dropWhile (\<lambda>c. c \<in> set asciiSpaces) (c # cs)"
    using IH(1) by (subst trimLeftRunes.simps) (simp add: spaceWidth_ascii [OF c])
  moreover have "trimLeftRunes (map rev spaceRunes) (c # cs) =
      dropWhile (\<lambda>c. c \<in> set asciiSpaces) (c # cs)"
    using IH(2) by (subst trimLeftRunes.simps) (simp add: spaceWidth_ascii [OF c])
  ultimately show ?case by simp
qed

lemma TrimSpace_ascii:
  assumes "\<forall>c\<in>set s. c < CHR 0x80"
  shows "TrimSpace s =
    rev (dropWhile (\<lambda>c. c \<in> set asciiSpaces) (rev (dropWhile (\<lambda>c. c \<in> set asciiSpaces) s)))"
proof -
  have "\<forall>c\<in>set (rev (dropWhile (\<lambda>c. c \<in> set asciiSpaces) s)). c < CHR 0x80"
    using assms by (auto dest: set_dropWhileD)
  then show ?thesis
    using assms
    by (simp add: TrimSpace_def TrimLeftSpace_def TrimRightSpace_def trimLeftRunes_ascii)
qed

lemmas trim_eval = TrimSpace_ascii less_char_def asciiSpaces_def


lemma prefix_snoc_creturn:
  assumes "creturn \<notin> set w" 
  shows "prefix w (s @ [creturn]) \<longleftrightarrow> prefix w s"
  using assms by (auto simp: prefix_snoc)












section \<open>Properties of the logfmt parser\<close>

lemmas logfmt_eval =
  parseLogfmt_def parseLoop.simps parseStep_def scanQuote.simps scanStates.simps
  trim_eval HasPrefix_def

lemmas scanner_eval =
  scanLines_def scanErr_def scanTokens.simps dropCR_def NewReader_def MaxScanTokenSize_def

lemma IndexByte_None: "IndexByte s c = None \<longleftrightarrow> c \<notin> set s"
  by (induction s) auto

lemma map_of_assign: "map_of (assign fs k v) = (map_of fs)(k \<mapsto> v)"
  by (induction fs) (auto simp: fun_eq_iff)

lemma lookup_assign: "lookup (Entry (assign fs k v)) = (lookup (Entry fs))(k \<mapsto> v)"
  by (simp add: lookup_def map_of_assign fun_eq_iff)

text \<open>Every state of the loop leads to the result of the whole scan.\<close>

lemma scanStates_parseLoop:
  "(e, r) \<in> set (scanStates e0 r0) \<Longrightarrow> parseLoop e r = parseLoop e0 r0"
proof (induction e0 r0 rule: scanStates.induct)
  case (1 entry remaining)
  from "1.prems" have "(e, r) = (entry, remaining) \<or>
    (\<exists>e' r'. parseStep entry remaining = Continue e' r' \<and> (e, r) \<in> set (scanStates e' r'))"
    by (subst (asm) scanStates.simps) (auto split: stepResult.splits)
  then show ?case
  proof
    assume "(e, r) = (entry, remaining)"
    then show ?thesis by simp
  next
    assume "\<exists>e' r'. parseStep entry remaining = Continue e' r' \<and> (e, r) \<in> set (scanStates e' r')"
    then obtain e' r' where st: "parseStep entry remaining = Continue e' r'"
      and mem: "(e, r) \<in> set (scanStates e' r')" by blast
    from "1.IH" [OF st mem] have "parseLoop e r = parseLoop e' r'" .
    also have "\<dots> = parseLoop entry remaining"
      using st by (subst (2) parseLoop.simps) simp
    finally show ?thesis .
  qed
qed



text \<open>
  Claim C2, as the code has it. When the scan of a line reaches a point where the
  remaining text, trimmed, is not empty and has no \<open>=\<close> anywhere in it, all of that text
  becomes one field name mapped to the boolean \<open>true\<close>, and the scan stops: the map of
  the line is the map built so far with that one field added.
\<close>

theorem C2_flag_takes_rest_of_line:
  assumes "(entry, remaining) \<in> set (scanStates [] line)"
    and "TrimSpace remaining \<noteq> []"
    and "CHR ''='' \<notin> set (TrimSpace remaining)"
  shows "parseLogfmt line = Inr (Entry (assign entry (TrimSpace remaining) (VBool True))) \<and>
    lookup (Entry (assign entry (TrimSpace remaining) (VBool True))) =
      (lookup (Entry entry))(TrimSpace remaining \<mapsto> VBool True)"
proof -
  from assms(2) have ne: "remaining \<noteq> []"
    using TrimSpace_length [of remaining] by auto
  from assms(3) have "IndexByte (TrimSpace remaining) (CHR ''='') = None"
    by (simp add: IndexByte_None)
  with assms(2) ne have "parseStep entry remaining =
      Done (assign entry (TrimSpace remaining) (VBool True))"
    by (simp add: parseStep_def)
  then have "parseLoop entry remaining = Inr (assign entry (TrimSpace remaining) (VBool True))"
    by (subst parseLoop.simps) simp
  then have "parseLoop [] line = Inr (assign entry (TrimSpace remaining) (VBool True))"
    using scanStates_parseLoop [OF assms(1)] by simp
  then show ?thesis
    by (simp add: parseLogfmt_def lookup_assign)
qed

theorem C2_flag_takes_rest_of_line_witness:
  "([(''a'', VStr ''1'')], ''  verbose debug'') \<in> set (scanStates [] ''a=1   verbose debug '') \<and>
   TrimSpace ''  verbose debug'' = ''verbose debug'' \<and>
   CHR ''='' \<notin> set ''verbose debug'' \<and>
   parseLogfmt ''a=1   verbose debug '' =
     Inr (Entry [(''a'', VStr ''1''), (''verbose debug'', VBool True)])"
  using C2_flag_takes_rest_of_line [of "[(''a'', VStr ''1'')]" "''  verbose debug''"
      "''a=1   verbose debug ''"]
  by (simp add: logfmt_eval)

text \<open>
  Claim C2 as the specification states it fails: in \<open>verbose a=1\<close> the scan starts at the
  token \<open>verbose\<close>, which has no \<open>=\<close>, and later text has one. The line does not become
  the flag \<open>verbose a=1\<close>: for this line the parser returns the one field \<open>verbose a\<close>
  with the string \<open>1\<close>.
\<close>

theorem C2_counterexample:
  "CHR ''='' \<notin> set ''verbose'' \<and>
   parseLogfmt ''verbose a=1'' = Inr (Entry [(''verbose a'', VStr ''1'')]) \<and>
   parseLogfmt ''verbose a=1'' \<noteq> Inr (Entry [(''verbose a=1'', VBool True)])"
  by (simp add: logfmt_eval)














section \<open>Properties of the JSON parser\<close>

lemma stringBody_shorter: "stringBody s = Some (str, rest) \<Longrightarrow> length rest < length s"
proof (induction "length s" arbitrary: s str rest rule: less_induct)
  case less
  have IH: "length rest < length t" if "stringBody t = Some (a, rest)" "length t < length s" for t a
    using less.hyps [OF that(2) that(1)] .
  show ?case
  proof (cases s)
    case Nil
    with less.prems show ?thesis by (simp add: stringBody.simps)
  next
    case (Cons c cs)
    from less.prems [unfolded Cons] show ?thesis
      unfolding Cons
      apply (subst (asm) stringBody.simps)
      apply (auto split: if_splits list.splits option.splits simp: Cons dest!: IH)
      done
  qed
qed

lemma parseNumber_shorter: "parseNumber s = Some (lit, rest) \<Longrightarrow> length rest < length s"
proof -
  have d: "length (dropWhile P xs) \<le> length xs" for P and xs :: string
    by (rule length_dropWhile_le)
  have i: "numberInt t = Some (a, r) \<Longrightarrow> length r < length t" for t a r
    using d [of isDigit] by (auto simp: numberInt_def le_imp_less_Suc split: list.splits if_splits)
  have f: "numberFrac t = Some (a, r) \<Longrightarrow> length r \<le> length t" for t a r
    using d [of isDigit] by (auto simp: numberFrac_def le_SucI split: list.splits if_splits)
  have e: "numberExp t = Some (a, r) \<Longrightarrow> length r \<le> length t" for t a r
    using d [of isDigit] by (auto simp: numberExp_def le_SucI split: list.splits if_splits)
  assume "parseNumber s = Some (lit, rest)"
  then obtain ip s1 fp s2 ep where
    1: "(if HasPrefix s ''-'' then numberInt (drop 1 s) else numberInt s) = Some (ip, s1)"
    and 2: "numberFrac s1 = Some (fp, s2)" and 3: "numberExp s2 = Some (ep, rest)"
    by (auto simp: parseNumber_def split: option.splits)
  from 1 have "length s1 < length s"
    by (auto dest!: i split: if_splits)
  with f [OF 2] e [OF 3] show ?thesis by simp
qed

text \<open>A value takes at least one byte of the text: the tests on the lengths never fail.\<close>

lemma parseValue_shorter:
  "parseValue depth s = Some (v, r) \<Longrightarrow> length r < length s"
  "parseElements depth s = Some (vs, r) \<Longrightarrow> length r < length s"
  "parseMembers depth s = Some (ms, r) \<Longrightarrow> length r < length s"
proof (induction depth s and depth s and depth s arbitrary: v r and vs r and ms r
    rule: parseValue_parseElements_parseMembers.induct)
  case (1 depth s)
  from "1.prems" obtain c cs where sk: "skipWS s = c # cs"
    by (subst (asm) parseValue.simps) (auto split: list.splits)
  then have cs: "length cs < length s" by (rule skipWS_Cons)
  show ?case
  proof (cases "c = CHR ''{'' \<or> c = CHR ''[''")
    case True
    with "1.prems" sk obtain c' cs' where nd: "\<not> maxNestingDepth \<le> depth"
      and sk2: "skipWS cs = c' # cs'"
      by (subst (asm) parseValue.simps) (auto split: list.splits if_splits)
    from sk2 have cs': "length cs' < length cs" by (rule skipWS_Cons)
    from True show ?thesis
    proof
      assume c: "c = CHR ''{''"
      show ?thesis
      proof (cases "c' = CHR ''}''")
        case True
        with "1.prems" sk sk2 c nd have "r = cs'"
          by (subst (asm) parseValue.simps) auto
        with cs cs' show ?thesis by simp
      next
        case False
        with "1.prems" sk sk2 c nd obtain ms where "parseMembers (Suc depth) cs = Some (ms, r)"
          by (subst (asm) parseValue.simps) auto
        from "1.IH"(1) [OF sk c nd sk2 False this] cs show ?thesis by simp
      qed
    next
      assume c: "c = CHR ''[''"
      then have nb: "c \<noteq> CHR ''{''" by simp
      show ?thesis
      proof (cases "c' = CHR '']''")
        case True
        with "1.prems" sk sk2 c nd have "r = cs'"
          by (subst (asm) parseValue.simps) auto
        with cs cs' show ?thesis by simp
      next
        case False
        with "1.prems" sk sk2 c nd obtain es where "parseElements (Suc depth) cs = Some (es, r)"
          by (subst (asm) parseValue.simps) auto
        from "1.IH"(2) [OF sk nb c nd sk2 False this] cs show ?thesis by simp
      qed
    qed
  next
    case False
    have d: "length (drop n (c # cs)) \<le> length s" for n
      using cs by simp
    from "1.prems" sk False cs d [of 4] d [of 5] show ?thesis
      apply (subst (asm) parseValue.simps)
      apply (auto simp: less_Suc_eq_le split: if_splits
          dest!: stringBody_shorter parseNumber_shorter)
      done
  qed
next
  case (2 depth s)
  from "2.prems" obtain v r0 c r' where pv: "parseValue depth s = Some (v, r0)"
    and g: "length r0 < length s" and sk: "skipWS r0 = c # r'"
    and alt: "(c = CHR '','' \<and> (\<exists>vs'. parseElements depth r' = Some (vs', r))) \<or>
      (c = CHR '']'' \<and> r = r')"
    by (subst (asm) parseElements.simps) (auto split: option.splits if_splits list.splits)
  from sk have r': "length r' < length r0" by (rule skipWS_Cons)
  from alt show ?case
  proof
    assume "c = CHR '','' \<and> (\<exists>vs'. parseElements depth r' = Some (vs', r))"
    then obtain vs' where c: "c = CHR '',''" and pe: "parseElements depth r' = Some (vs', r)"
      by blast
    from "2.IH"(2) [OF pv refl g sk c pe] r' g show ?thesis by simp
  next
    assume "c = CHR '']'' \<and> r = r'"
    with r' g show ?thesis by simp
  qed
next
  case (3 depth s)
  from "3.prems" obtain q ks key r0 colon r1 v r2 c r' where sk0: "skipWS s = q # ks"
    and q: "q = dquote" and sb: "stringBody ks = Some (key, r0)"
    and sk1: "skipWS r0 = colon # r1" and col: "colon = CHR '':'' \<and> length r1 < length s"
    and pv: "parseValue depth r1 = Some (v, r2)" and g: "length r2 < length s"
    and sk2: "skipWS r2 = c # r'"
    and alt: "(c = CHR '','' \<and> (\<exists>ms'. parseMembers depth r' = Some (ms', r))) \<or>
      (c = CHR ''}'' \<and> r = r')"
    by (subst (asm) parseMembers.simps) (auto split: option.splits if_splits list.splits)
  from sk2 have r': "length r' < length r2" by (rule skipWS_Cons)
  from alt show ?case
  proof
    assume "c = CHR '','' \<and> (\<exists>ms'. parseMembers depth r' = Some (ms', r))"
    then obtain ms' where c: "c = CHR '',''" and pm: "parseMembers depth r' = Some (ms', r)"
      by blast
    from "3.IH"(2) [OF sk0 q sb refl sk1 col pv refl g sk2 c pm] r' g show ?thesis by simp
  next
    assume "c = CHR ''}'' \<and> r = r'"
    with r' g show ?thesis by simp
  qed
qed


text \<open>So the two loops are the loops of the grammar.\<close>

lemma parseElements_unguarded:
  "parseElements depth s =
     (case parseValue depth s of
        None \<Rightarrow> None
      | Some (v, r) \<Rightarrow>
          (case skipWS r of
             [] \<Rightarrow> None
           | c # r' \<Rightarrow>
               if c = CHR '','' then
                 map_option (\<lambda>(vs, rest). (v # vs, rest)) (parseElements depth r')
               else if c = CHR '']'' then Some ([v], r')
               else None))"
  by (subst parseElements.simps) (auto split: option.splits dest: parseValue_shorter(1))

lemmas json_eval =
  JSONParser_Parse_def Unmarshal_def parseJSON_def parseValue.simps parseElements.simps
  parseMembers.simps stringBody.simps parseNumber_def numberInt_def numberFrac_def
  numberExp_def skipWS_def isWS_def isDigit_def HasPrefix_def maxNestingDepth_def
  less_eq_char_def less_char_def

text \<open>The output for a sequence of lines is the output for its parts, one after the other.\<close>

lemma jsonLines_append:
  "jsonLines L n (xs @ ys) =
     (fst (jsonLines L n xs) @ fst (jsonLines L (n + length xs) ys),
      snd (jsonLines L n xs) @ snd (jsonLines L (n + length xs) ys))"
  by (induction xs arbitrary: n) (auto split: sum.splits prod.splits)

text \<open>
  A line that is not blank and that \<open>json.Unmarshal\<close> returns an error for gives one error
  with the number of the line and no record, whatever lines come before and after: a
  line that is not JSON, and a line that is a JSON array, string, number or boolean.
\<close>

lemma jsonLines_error_line:
  assumes "TrimSpace text \<noteq> []" and "Unmarshal L (TrimSpace text) = Inl err"
  shows "jsonLines L n (before @ text # after) =
      (fst (jsonLines L n before) @ fst (jsonLines L (n + length before + 1) after),
       snd (jsonLines L n before) @ LineError (n + length before + 1) err #
         snd (jsonLines L (n + length before + 1) after))"
proof -
  from assms have "jsonLines L m (text # after) =
      (fst (jsonLines L (m + 1) after), LineError (m + 1) err # snd (jsonLines L (m + 1) after))"
    for m by (simp split: prod.splits)
  then show ?thesis by (simp add: jsonLines_append)
qed

lemma Unmarshal_not_object:
  "parseJSON line = None \<Longrightarrow> Unmarshal L line = Inl JSONSyntaxError"
  "parseJSON line = Some (JBool b) \<Longrightarrow> Unmarshal L line = Inl JSONUnmarshalTypeError"
  "parseJSON line = Some (JNumber lit) \<Longrightarrow> Unmarshal L line = Inl JSONUnmarshalTypeError"
  "parseJSON line = Some (JString str) \<Longrightarrow> Unmarshal L line = Inl JSONUnmarshalTypeError"
  "parseJSON line = Some (JArray js) \<Longrightarrow> Unmarshal L line = Inl JSONUnmarshalTypeError"
  "parseJSON line = Some JNull \<Longrightarrow> Unmarshal L line = Inr NilEntry"
  by (simp_all add: Unmarshal_def)

text \<open>
  Claim C3 fails on the code for the line \<open>null\<close>, which is JSON and not an object:
  \<open>json.Unmarshal\<close> returns no error for it and leaves the map \<open>nil\<close>, so the parser sends
  a \<open>nil\<close> record for the line and no error. In merge mode \<open>loadEntries\<close> then panics,
  at the assignment of \<open>_source\<close> to that record.
\<close>

theorem C3_null_line_emits_record:
  "parseJSON ''null'' = Some JNull \<and>
   JSONParser_Parse sampleLib (NewReader ''null'') = ([NilEntry], []) \<and>
   JSONParser_Parse sampleLib (NewReader (''[1]'' @ [newline] @ ''null'' @ [newline] @ ''nul'')) =
     ([NilEntry], [LineError 1 JSONUnmarshalTypeError, LineError 3 JSONSyntaxError]) \<and>
   loadEntries sampleLib (NewReader ''null'') (JSONParser_Parse sampleLib) ''a.log'' =
     Inl NilMapAssignment"
  by (simp add: json_eval scanner_eval trim_eval loadEntries_def)

section \<open>Properties of the filters\<close>

text \<open>\<open>Index\<close> finds an occurrence, and finds none only when there is none.\<close>

lemma Index_Some: "Index s sub = Some i \<Longrightarrow> s = take i s @ sub @ drop (i + length sub) s"
proof (induction s arbitrary: i)
  case Nil
  then show ?case by (simp split: if_splits)
next
  case (Cons x xs)
  show ?case
  proof (cases "prefix sub (x # xs)")
    case True
    with Cons.prems have "i = 0" by simp
    with True show ?thesis by (auto simp: prefix_def)
  next
    case False
    with Cons.prems obtain j where j: "Index xs sub = Some j" "i = Suc j" by auto
    from Cons.IH [OF j(1)] j(2) show ?thesis by simp
  qed
qed

lemma Index_None: "Index s sub = None \<longleftrightarrow> \<not> sublist sub s"
proof (induction s)
  case Nil
  then show ?case by simp
next
  case (Cons x xs)
  then show ?case by (auto simp: sublist_Cons_right)
qed

lemma tryOperators_first:
  assumes "i < length ops" and "Index expression (ops ! i) = Some idx"
    and "\<forall>j<i. Index expression (ops ! j) = None"
  shows "tryOperators L expression ops =
    (if ops ! i = ''~'' \<and> \<not> RegexpCompiles L (drop (idx + length (ops ! i)) expression)
     then Inl InvalidRegex
     else Inr \<lparr>re = (if ops ! i = ''~'' then Some (drop (idx + length (ops ! i)) expression)
                      else None),
               Field = take idx expression, Operator = ops ! i,
               Value = drop (idx + length (ops ! i)) expression\<rparr>)"
  using assms
proof (induction ops arbitrary: i)
  case Nil
  then show ?case by simp
next
  case (Cons op ops)
  show ?case
  proof (cases i)
    case 0
    with Cons.prems show ?thesis by (simp add: Let_def)
  next
    case (Suc k)
    with Cons.prems have none: "Index expression op = None" by auto
    from Suc Cons.prems have "k < length ops" "Index expression (ops ! k) = Some idx"
      "\<forall>j<k. Index expression (ops ! j) = None" by auto
    from Cons.IH [OF this] none Suc show ?thesis by simp
  qed
qed

lemma tryOperators_none:
  "\<forall>op\<in>set ops. Index expression op = None \<Longrightarrow>
    tryOperators L expression ops = Inl (InvalidExpression expression)"
  by (induction ops) auto

text \<open>
  Claim C4. \<open>NewFieldFilter\<close> tries the operators in the order \<open>!=\<close>, \<open>~\<close>, \<open>>=\<close>, \<open><=\<close>,
  \<open>=\<close>, \<open>>\<close>, \<open><\<close>. The first operator of that order that occurs in the expression
  decides the split, at its first occurrence: the text before it is the field, the text
  after it the value (for \<open>~\<close> the value must compile as a regular expression, or the
  result is an error). So \<open>level!=error\<close> gives \<open>!=\<close> with field \<open>level\<close> and value \<open>error\<close>,
  and \<open>count>=10\<close> gives \<open>>=\<close>. An expression in which no operator occurs is an error.
\<close>

theorem C4_operator_priority:
  "operators = [''!='', ''~'', ''>='', ''<='', ''='', ''>'', ''<''] \<and>
   (\<forall>i idx. i < length operators \<and> Index expression (operators ! i) = Some idx \<and>
      (\<forall>j<i. \<not> sublist (operators ! j) expression) \<longrightarrow>
      expression = take idx expression @ operators ! i @
        drop (idx + length (operators ! i)) expression \<and>
      NewFieldFilter L expression =
        (if operators ! i = ''~'' \<and>
            \<not> RegexpCompiles L (drop (idx + length (operators ! i)) expression)
         then Inl InvalidRegex
         else Inr \<lparr>re = (if operators ! i = ''~''
                          then Some (drop (idx + length (operators ! i)) expression) else None),
                   Field = take idx expression, Operator = operators ! i,
                   Value = drop (idx + length (operators ! i)) expression\<rparr>)) \<and>
   ((\<forall>op\<in>set operators. \<not> sublist op expression) \<longrightarrow>
      NewFieldFilter L expression = Inl (InvalidExpression expression)) \<and>
   NewFieldFilter L ''level!=error'' =
     Inr \<lparr>re = None, Field = ''level'', Operator = ''!='', Value = ''error''\<rparr> \<and>
   NewFieldFilter L ''count>=10'' =
     Inr \<lparr>re = None, Field = ''count'', Operator = ''>='', Value = ''10''\<rparr>"
proof (intro conjI allI impI)
  show "operators = [''!='', ''~'', ''>='', ''<='', ''='', ''>'', ''<'']"
    by (simp add: operators_def)
next
  fix i idx
  assume "i < length operators \<and> Index expression (operators ! i) = Some idx \<and>
      (\<forall>j<i. \<not> sublist (operators ! j) expression)"
  then have a: "i < length operators" "Index expression (operators ! i) = Some idx"
    "\<forall>j<i. Index expression (operators ! j) = None"
    by (simp_all add: Index_None)
  from a(2) show "expression = take idx expression @ operators ! i @
        drop (idx + length (operators ! i)) expression"
    by (rule Index_Some)
  from tryOperators_first [OF a]
  show "NewFieldFilter L expression =
        (if operators ! i = ''~'' \<and>
            \<not> RegexpCompiles L (drop (idx + length (operators ! i)) expression)
         then Inl InvalidRegex
         else Inr \<lparr>re = (if operators ! i = ''~''
                          then Some (drop (idx + length (operators ! i)) expression) else None),
                   Field = take idx expression, Operator = operators ! i,
                   Value = drop (idx + length (operators ! i)) expression\<rparr>)"
    by (simp add: NewFieldFilter_def)
next
  assume "\<forall>op\<in>set operators. \<not> sublist op expression"
  then have "\<forall>op\<in>set operators. Index expression op = None"
    by (simp add: Index_None)
  then show "NewFieldFilter L expression = Inl (InvalidExpression expression)"
    unfolding NewFieldFilter_def by (rule tryOperators_none)
next
  show "NewFieldFilter L ''level!=error'' =
     Inr \<lparr>re = None, Field = ''level'', Operator = ''!='', Value = ''error''\<rparr>"
    by (simp add: NewFieldFilter_def operators_def)
next
  show "NewFieldFilter L ''count>=10'' =
     Inr \<lparr>re = None, Field = ''count'', Operator = ''>='', Value = ''10''\<rparr>"
    by (simp add: NewFieldFilter_def operators_def)
qed

text \<open>
  In \<open>a<b!=c\<close> the operator \<open><\<close> stands first in the text, and \<open>!=\<close> decides the split;
  \<open>noop\<close> has no operator.
\<close>

theorem C4_operator_priority_witness:
  "\<forall>L. Index ''a<b!=c'' (operators ! 0) = Some 3 \<and>
     NewFieldFilter L ''a<b!=c'' =
       Inr \<lparr>re = None, Field = ''a<b'', Operator = ''!='', Value = ''c''\<rparr> \<and>
     NewFieldFilter L ''noop'' = Inl (InvalidExpression ''noop'')"
proof
  fix L
  have i: "Index ''a<b!=c'' (operators ! 0) = Some 3"
    by (simp add: operators_def)
  have n: "\<forall>op\<in>set operators. \<not> sublist op ''noop''"
    by (simp add: operators_def Index_None [symmetric])
  note found = conjunct1 [OF conjunct2 [OF C4_operator_priority [of "''a<b!=c''" L]]]
  note missing = conjunct1 [OF conjunct2 [OF conjunct2 [OF C4_operator_priority [of "''noop''" L]]]]
  from found [rule_format, of 0 3] i
  have "NewFieldFilter L ''a<b!=c'' =
       Inr \<lparr>re = None, Field = ''a<b'', Operator = ''!='', Value = ''c''\<rparr>"
    by (simp add: operators_def)
  moreover from missing n
  have "NewFieldFilter L ''noop'' = Inl (InvalidExpression ''noop'')"
    by (rule mp)
  ultimately show "Index ''a<b!=c'' (operators ! 0) = Some 3 \<and>
     NewFieldFilter L ''a<b!=c'' =
       Inr \<lparr>re = None, Field = ''a<b'', Operator = ''!='', Value = ''c''\<rparr> \<and>
     NewFieldFilter L ''noop'' = Inl (InvalidExpression ''noop'')"
    using i by simp
qed

text \<open>
  Claim C5. For a record that does not have the filter's field, \<open>FieldFilter.Match\<close>
  returns \<open>false\<close>, whatever the operator, the value and the compiled expression of the
  filter are; and so does a filter that \<open>NewFieldFilter\<close> returns, for \<open>!=\<close> too.
\<close>

theorem C5_missing_field_never_matches:
  assumes "lookup entry (Field f) = None"
  shows "fst (FieldFilter_Match L f entry) = Inr False"
  using assms by (simp add: FieldFilter_Match_def)

theorem C5_missing_field_never_matches_witness:
  "\<forall>L. NewFieldFilter L ''level!=info'' =
       Inr \<lparr>re = None, Field = ''level'', Operator = ''!='', Value = ''info''\<rparr> \<and>
     lookup (Entry [(''msg'', VStr ''hello'')]) ''level'' = None \<and>
     fst (FieldFilter_Match L \<lparr>re = None, Field = ''level'', Operator = ''!='', Value = ''info''\<rparr>
       (Entry [(''msg'', VStr ''hello'')])) = Inr False"
proof
  fix L
  have 1: "lookup (Entry [(''msg'', VStr ''hello'')])
      (Field \<lparr>re = None, Field = ''level'', Operator = ''!='', Value = ''info''\<rparr>) = None"
    by (simp add: lookup_def)
  from C5_missing_field_never_matches [OF 1, of L]
  show "NewFieldFilter L ''level!=info'' =
       Inr \<lparr>re = None, Field = ''level'', Operator = ''!='', Value = ''info''\<rparr> \<and>
     lookup (Entry [(''msg'', VStr ''hello'')]) ''level'' = None \<and>
     fst (FieldFilter_Match L \<lparr>re = None, Field = ''level'', Operator = ''!='', Value = ''info''\<rparr>
       (Entry [(''msg'', VStr ''hello'')])) = Inr False"
    by (simp add: NewFieldFilter_def operators_def lookup_def)
qed

section \<open>Properties of the format sniffer\<close>

lemmas sniff_eval =
  sniffFormat.simps ReadString_def MultiReader_def ReadAll_def NewReader_def HasPrefix_def
  trim_eval

text \<open>
  The reader that \<open>sniffFormat\<close> returns delivers an end piece of the stream, and all of
  the stream when its first line is not blank.
\<close>

lemma ReadString_content:
  "ReadString br = (line, err, br') \<Longrightarrow> content br = line @ content br' \<and> failure br' = failure br"
  by (auto simp: ReadString_def split: option.splits)

lemma sniffFormat_suffix:
  "sniffFormat br = Inr (format, r) \<Longrightarrow>
     suffix (content r) (content br) \<and> failure r = failure br \<and>
     (TrimSpace (fst (ReadString br)) \<noteq> [] \<longrightarrow> content r = content br)"
proof (induction br arbitrary: format r rule: sniffFormat.induct)
  case (1 br)
  obtain line err br' where rs: "ReadString br = (line, err, br')"
    by (cases "ReadString br") auto
  note c = ReadString_content [OF rs]
  show ?case
  proof (cases "TrimSpace line = []")
    case False
    with "1.prems" rs have "r = MultiReader line br'"
      by (subst (asm) sniffFormat.simps) (auto split: if_splits)
    with c rs False show ?thesis by (simp add: MultiReader_def)
  next
    case True
    show ?thesis
    proof (cases err)
      case None
      with "1.prems" rs True have again: "sniffFormat br' = Inr (format, r)"
        by (subst (asm) sniffFormat.simps) simp
      have nb: "\<not> TrimSpace line \<noteq> []" using True by simp
      from "1.IH" [OF rs [symmetric] refl nb None again] c rs True show ?thesis
        by (auto simp: suffix_def)
    next
      case (Some e)
      with "1.prems" rs True have "r = br'"
        by (subst (asm) sniffFormat.simps) (auto split: readError.splits)
      with c rs True show ?thesis by (auto simp: suffix_def)
    qed
  qed
qed

text \<open>
  Claim C1 fails on the code. The reader that \<open>sniffFormat\<close> returns starts at the first
  line that is not blank: the blank lines read before it are gone. From two empty lines
  and the line \<open>k="u\<close>, the returned reader delivers only that line, and the logfmt
  parser reports its error at line 1, where the input has it at line 3. A stream of blank
  lines only comes back empty.
\<close>

theorem C1_leading_blank_lines_dropped:
  "sniffFormat (NewReader ([newline, newline] @ [CHR ''k'', CHR ''='', dquote, CHR ''u'', newline]))
     = Inr (''logfmt'', NewReader [CHR ''k'', CHR ''='', dquote, CHR ''u'', newline]) \<and>
   ReadAll (NewReader [CHR ''k'', CHR ''='', dquote, CHR ''u'', newline]) \<noteq>
     ReadAll (NewReader ([newline, newline] @ [CHR ''k'', CHR ''='', dquote, CHR ''u'', newline])) \<and>
   LogfmtParser_Parse (NewReader ([newline, newline] @ [CHR ''k'', CHR ''='', dquote, CHR ''u'', newline]))
     = ([], [LineError 3 UnterminatedString]) \<and>
   LogfmtParser_Parse (NewReader [CHR ''k'', CHR ''='', dquote, CHR ''u'', newline])
     = ([], [LineError 1 UnterminatedString]) \<and>
   sniffFormat (NewReader [CHR '' '', newline, newline]) = Inr (''json'', NewReader [])"
  by (simp add: sniff_eval LogfmtParser_Parse_def scanner_eval logfmt_eval)

section \<open>Properties of the statistics\<close>

lemma statLess_statOrd: "statLess a b \<longleftrightarrow> statOrd a < statOrd b"
  by (auto simp: statLess_def statOrd_def less_prod_def)

lemma statOrd_inj: "statOrd a = statOrd b \<longleftrightarrow> a = b" for a b :: statEntry
  by (cases a, cases b) (auto simp: statOrd_def)

lemma set_insertStat: "set (insertStat x ys) = insert x (set ys)"
  by (induction ys) auto

lemma mset_insertStat: "mset (insertStat x ys) = add_mset x (mset ys)"
  by (induction ys) auto

lemma sorted_insertStat:
  "sorted (map statOrd ys) \<Longrightarrow> sorted (map statOrd (insertStat x ys))"
  by (induction ys) (auto simp: set_insertStat statLess_statOrd)

lemma mset_sortStats: "mset (sortStats xs) = mset xs"
  by (induction xs) (auto simp: sortStats_def mset_insertStat)

lemma sorted_sortStats: "sorted (map statOrd (sortStats xs))"
  by (induction xs) (auto simp: sortStats_def sorted_insertStat)

lemma sortStats_order_irrelevant:
  assumes "mset ys = mset xs" and "distinct (map statValue xs)"
  shows "sortStats ys = sortStats xs"
proof -
  have dx: "distinct xs" using assms(2) by (rule distinct_map [THEN iffD1, THEN conjunct1])
  have inj: "inj_on statOrd A" for A by (rule inj_onI) (simp add: statOrd_inj)
  have msx: "mset (sortStats xs) = mset xs" and msy: "mset (sortStats ys) = mset xs"
    using assms(1) by (simp_all add: mset_sortStats)
  have "distinct (sortStats xs)" "distinct (sortStats ys)"
    using dx msx msy by (metis mset_eq_imp_distinct_iff)+
  then have d: "distinct (map statOrd (sortStats xs))" "distinct (map statOrd (sortStats ys))"
    by (simp_all add: distinct_map inj)
  have s: "set (map statOrd (sortStats ys)) = set (map statOrd (sortStats xs))"
    using msx msy by (metis mset_map set_mset_mset)
  have "sorted_wrt (<) (map statOrd (sortStats xs))"
    "sorted_wrt (<) (map statOrd (sortStats ys))"
    using d sorted_sortStats by (simp_all add: strict_sorted_iff)
  then have "map statOrd (sortStats ys) = map statOrd (sortStats xs)"
    using s by (metis strict_sorted_equal)
  then show ?thesis
    using inj [of UNIV] by (simp add: inj_map_eq_map)
qed

lemma map_of_increment:
  "map_of (increment counts key) =
     (map_of counts)(key \<mapsto> (case map_of counts key of None \<Rightarrow> 1 | Some n \<Rightarrow> n + 1))"
  by (induction counts key rule: increment.induct) (auto simp: fun_eq_iff)

lemma keys_increment: "set (map fst (increment counts key)) = insert key (set (map fst counts))"
  by (induction counts key rule: increment.induct) auto

lemma distinct_increment:
  "distinct (map fst counts) \<Longrightarrow> distinct (map fst (increment counts key))"
proof (induction counts key rule: increment.induct)
  case (1 key)
  then show ?case by simp
next
  case (2 k n counts key)
  then show ?case using keys_increment [of counts key] by auto
qed

lemma distinct_tally:
  "distinct (map fst counts) \<Longrightarrow> distinct (map fst (tally L match field counts entries))"
  by (induction entries arbitrary: counts) (auto simp: distinct_increment)

lemma map_of_tally:
  "map_of (tally L match field counts entries) k =
     (case map_of counts k of
        None \<Rightarrow>
          if length (filter (\<lambda>e. match e \<and> statKey L field e = k) entries) = 0 then None
          else Some (length (filter (\<lambda>e. match e \<and> statKey L field e = k) entries))
      | Some n \<Rightarrow> Some (n + length (filter (\<lambda>e. match e \<and> statKey L field e = k) entries)))"
proof (induction entries arbitrary: counts)
  case Nil
  then show ?case by (simp split: option.splits)
next
  case (Cons e entries)
  then show ?case
    by (simp add: map_of_increment split: option.splits)
qed


lemmas stats_eval = collectStats_def sortStats_def statLess_def statKey_def lookup_def

text \<open>
  Claim C6. The table of \<open>collectStats\<close> has one entry for each key under which a record
  that passes the filter is counted, with the number of those records; the key of a record
  is the string form of the field's value, and \<open>(none)\<close> for a record without the field.
  The entries are in order of falling count, and of rising value where counts are equal;
  the order in which the map of counts is visited does not change the table. The records
  with the levels info, error, info, info, warn, warn give (info, 3), (warn, 2),
  (error, 1).
\<close>

theorem C6_stats:
  "(\<forall>k n. \<lparr>statValue = k, statCount = n\<rparr> \<in> set (collectStats L entries match field) \<longleftrightarrow>
      0 < n \<and> n = length (filter (\<lambda>e. match e \<and> statKey L field e = k) entries)) \<and>
   (\<forall>e. statKey L field e =
      (case lookup e field of None \<Rightarrow> ''(none)'' | Some v \<Rightarrow> Sprint L v)) \<and>
   distinct (map statValue (collectStats L entries match field)) \<and>
   sorted_wrt (\<lambda>a b. statCount a > statCount b \<or>
       (statCount a = statCount b \<and> statValue a < statValue b))
     (collectStats L entries match field) \<and>
   (\<forall>ys. mset ys = mset (map (\<lambda>(v, n). \<lparr>statValue = v, statCount = n\<rparr>)
        (tally L match field [] entries)) \<longrightarrow>
      sortStats ys = collectStats L entries match field) \<and>
   collectStats L
     [Entry [(''level'', VStr ''info'')], Entry [(''level'', VStr ''error'')],
      Entry [(''level'', VStr ''info'')], Entry [(''level'', VStr ''info'')],
      Entry [(''level'', VStr ''warn'')], Entry [(''level'', VStr ''warn'')]]
     (\<lambda>e. True) ''level'' =
     [\<lparr>statValue = ''info'', statCount = 3\<rparr>, \<lparr>statValue = ''warn'', statCount = 2\<rparr>,
      \<lparr>statValue = ''error'', statCount = 1\<rparr>]"
proof -
  let ?mk = "\<lambda>(v, n). \<lparr>statValue = v, statCount = n\<rparr>"
  let ?counts = "tally L match field [] entries"
  let ?result = "collectStats L entries match field"
  let ?count = "\<lambda>k. length (filter (\<lambda>e. match e \<and> statKey L field e = k) entries)"
  have res: "?result = sortStats (map ?mk ?counts)" by (simp add: collectStats_def)
  have dc: "distinct (map fst ?counts)" by (rule distinct_tally) simp
  have "statValue \<circ> ?mk = fst" by (auto simp: fun_eq_iff)
  then have dv: "distinct (map statValue (map ?mk ?counts))" using dc by simp
  have ms: "mset ?result = mset (map ?mk ?counts)" by (simp add: res mset_sortStats)
  have 1: "\<lparr>statValue = k, statCount = n\<rparr> \<in> set ?result \<longleftrightarrow> 0 < n \<and> n = ?count k" for k n
  proof -
    have "\<lparr>statValue = k, statCount = n\<rparr> \<in> set ?result \<longleftrightarrow>
        \<lparr>statValue = k, statCount = n\<rparr> \<in> set (map ?mk ?counts)"
      using ms by (metis set_mset_mset)
    also have "\<dots> \<longleftrightarrow> (k, n) \<in> set ?counts" by (force simp: case_prod_beta)
    also have "\<dots> \<longleftrightarrow> map_of ?counts k = Some n" using dc by simp
    also have "\<dots> \<longleftrightarrow> 0 < n \<and> n = ?count k"
      by (auto simp: map_of_tally [of L match field "[]" entries k])
    finally show ?thesis .
  qed
  have 2: "statKey L field e = (case lookup e field of None \<Rightarrow> ''(none)'' | Some v \<Rightarrow> Sprint L v)"
    for e by (simp add: statKey_def split: option.splits)
  have 3: "distinct (map statValue ?result)"
  proof -
    have "mset (map statValue ?result) = mset (map statValue (map ?mk ?counts))"
      using ms by (metis mset_map)
    then show ?thesis using dv by (metis mset_eq_imp_distinct_iff)
  qed
  have 4: "sorted_wrt (\<lambda>a b. statCount a > statCount b \<or>
       (statCount a = statCount b \<and> statValue a < statValue b)) ?result"
  proof -
    have "distinct ?result" using 3 by (rule distinct_map [THEN iffD1, THEN conjunct1])
    then have "distinct (map statOrd ?result)"
      by (simp add: distinct_map inj_on_def statOrd_inj)
    with sorted_sortStats [of "map ?mk ?counts"]
    have "sorted_wrt (<) (map statOrd ?result)"
      by (simp add: res strict_sorted_iff)
    then have "sorted_wrt (\<lambda>a b. statLess a b) ?result"
      by (simp add: sorted_wrt_map statLess_statOrd)
    then show ?thesis
      by (rule sorted_wrt_mono_rel [rotated]) (auto simp: statLess_def split: if_splits)
  qed
  have 5: "sortStats ys = ?result" if "mset ys = mset (map ?mk ?counts)" for ys
    unfolding res using that dv by (rule sortStats_order_irrelevant)
  have 6: "collectStats L
     [Entry [(''level'', VStr ''info'')], Entry [(''level'', VStr ''error'')],
      Entry [(''level'', VStr ''info'')], Entry [(''level'', VStr ''info'')],
      Entry [(''level'', VStr ''warn'')], Entry [(''level'', VStr ''warn'')]]
     (\<lambda>e. True) ''level'' =
     [\<lparr>statValue = ''info'', statCount = 3\<rparr>, \<lparr>statValue = ''warn'', statCount = 2\<rparr>,
      \<lparr>statValue = ''error'', statCount = 1\<rparr>]"
    by (simp add: stats_eval)
  from 1 2 3 4 5 6 show ?thesis by blast
qed

theorem C6_stats_witness:
  "\<forall>L. sortStats [\<lparr>statValue = ''warn'', statCount = 2\<rparr>,
       \<lparr>statValue = ''error'', statCount = 1\<rparr>, \<lparr>statValue = ''info'', statCount = 3\<rparr>] =
     [\<lparr>statValue = ''info'', statCount = 3\<rparr>, \<lparr>statValue = ''warn'', statCount = 2\<rparr>,
      \<lparr>statValue = ''error'', statCount = 1\<rparr>] \<and>
     collectStats L
       [Entry [(''level'', VStr ''info'')], Entry [(''msg'', VStr ''no level field'')]]
       (\<lambda>e. True) ''level'' =
     [\<lparr>statValue = ''(none)'', statCount = 1\<rparr>, \<lparr>statValue = ''info'', statCount = 1\<rparr>]"
proof
  fix L
  let ?entries = "[Entry [(''level'', VStr ''info'')], Entry [(''level'', VStr ''error'')],
      Entry [(''level'', VStr ''info'')], Entry [(''level'', VStr ''info'')],
      Entry [(''level'', VStr ''warn'')], Entry [(''level'', VStr ''warn'')]]"
  let ?ys = "[\<lparr>statValue = ''warn'', statCount = 2\<rparr>,
       \<lparr>statValue = ''error'', statCount = 1\<rparr>, \<lparr>statValue = ''info'', statCount = 3\<rparr>]"
  note inst = C6_stats [of L ?entries "\<lambda>e. True" "''level''"]
  have "map (\<lambda>(v, n). \<lparr>statValue = v, statCount = n\<rparr>)
        (tally L (\<lambda>e. True) ''level'' [] ?entries) = rev ?ys"
    by (simp add: stats_eval)
  then have "mset ?ys = mset (map (\<lambda>(v, n). \<lparr>statValue = v, statCount = n\<rparr>)
        (tally L (\<lambda>e. True) ''level'' [] ?entries))"
    by (simp only: mset_rev)
  with inst have "sortStats ?ys = collectStats L ?entries (\<lambda>e. True) ''level''"
    by blast
  with inst have 1: "sortStats ?ys =
     [\<lparr>statValue = ''info'', statCount = 3\<rparr>, \<lparr>statValue = ''warn'', statCount = 2\<rparr>,
      \<lparr>statValue = ''error'', statCount = 1\<rparr>]"
    by simp
  have 2: "collectStats L
       [Entry [(''level'', VStr ''info'')], Entry [(''msg'', VStr ''no level field'')]]
       (\<lambda>e. True) ''level'' =
     [\<lparr>statValue = ''(none)'', statCount = 1\<rparr>, \<lparr>statValue = ''info'', statCount = 1\<rparr>]"
    by (simp add: stats_eval)
  from 1 2 show "sortStats ?ys =
     [\<lparr>statValue = ''info'', statCount = 3\<rparr>, \<lparr>statValue = ''warn'', statCount = 2\<rparr>,
      \<lparr>statValue = ''error'', statCount = 1\<rparr>] \<and>
     collectStats L
       [Entry [(''level'', VStr ''info'')], Entry [(''msg'', VStr ''no level field'')]]
       (\<lambda>e. True) ''level'' =
     [\<lparr>statValue = ''(none)'', statCount = 1\<rparr>, \<lparr>statValue = ''info'', statCount = 1\<rparr>]"
    by simp
qed

section \<open>Properties of the merge\<close>

lemma sint_eq_iff: "sint a = sint b \<longleftrightarrow> a = b" for a b :: "64 word"
  by (auto intro: signed_word_eqI)

lemma Before_timeKey: "Before t u \<longleftrightarrow> timeKey t < timeKey u"
  by (auto simp: Before_def timeKey_def less_prod_def sint_eq_iff)

lemma insertByTime_insort: "insertByTime x ys = insort_key (\<lambda>m. timeKey (m_t m)) x ys"
  by (induction ys) (auto simp: Before_timeKey)

lemma SliceStable_sort_key: "SliceStable xs = sort_key (\<lambda>m. timeKey (m_t m)) xs"
proof -
  have "insertByTime = insort_key (\<lambda>m. timeKey (m_t m))"
    by (intro ext) (rule insertByTime_insort)
  then show ?thesis by (simp add: SliceStable_def sort_key_def)
qed

lemma timestampLoop_unusable:
  "\<forall>key\<in>set keys. case lookup entry key of None \<Rightarrow> True
      | Some v \<Rightarrow> ScanEpoch L (Sprint L v) = None \<and> ParseRFC3339 L (Sprint L v) = None
   \<Longrightarrow> timestampLoop L entry keys = zeroTime"
  by (induction keys) (auto split: option.splits)

text \<open>
  Claim C7, as the code has it. The sort is a stable sort by the parsed timestamp: its
  result has the records of the collection, no record stands behind one that is later in
  time, and the records of one instant (the same second and nanosecond) keep the order
  they were loaded in. The same holds
  for the records that pass a filter afterwards. A record without a usable timestamp (no
  timestamp field, or none whose value the library reads as a time) gets the zero time,
  January 1 of year 1: every such record stands in front of every record whose time is
  after the zero time.
\<close>

theorem C7_merge_order:
  "mset (SliceStable all) = mset all \<and>
   sorted_wrt (\<lambda>a b. \<not> Before (m_t b) (m_t a)) (SliceStable all) \<and>
   (\<forall>k. filter (\<lambda>m. timeKey (m_t m) = k) (SliceStable all) =
      filter (\<lambda>m. timeKey (m_t m) = k) all) \<and>
   (\<forall>P. sorted_wrt (\<lambda>a b. \<not> Before (m_t b) (m_t a)) (filter P (SliceStable all))) \<and>
   (\<forall>i j. i < length (SliceStable all) \<and> j < length (SliceStable all) \<and>
      m_t (SliceStable all ! i) = zeroTime \<and> Before zeroTime (m_t (SliceStable all ! j))
      \<longrightarrow> i < j) \<and>
   (\<forall>L entry.
      (\<forall>key\<in>set [''time'', ''ts'', ''timestamp''].
         case lookup entry key of None \<Rightarrow> True
         | Some v \<Rightarrow> ScanEpoch L (Sprint L v) = None \<and> ParseRFC3339 L (Sprint L v) = None)
      \<longrightarrow> parseTimestampForSort L entry = zeroTime)"
proof -
  let ?f = "\<lambda>m. timeKey (m_t m)"
  let ?out = "SliceStable all"
  have out: "?out = sort_key ?f all" by (rule SliceStable_sort_key)
  have 1: "mset ?out = mset all" by (simp add: out)
  have "sorted (map ?f ?out)" by (simp add: out)
  then have 2: "sorted_wrt (\<lambda>a b. \<not> Before (m_t b) (m_t a)) ?out"
    by (simp add: sorted_map sorted_wrt_iff_nth_less Before_timeKey not_less)
  have 3: "filter (\<lambda>m. ?f m = k) ?out = filter (\<lambda>m. ?f m = k) all" for k
    unfolding out by (rule sort_key_stable)
  have 4: "sorted_wrt (\<lambda>a b. \<not> Before (m_t b) (m_t a)) (filter P ?out)" for P
    using 2 by (rule sorted_wrt_filter)
  have 5: "i < j" if "i < length ?out" "j < length ?out" "m_t (?out ! i) = zeroTime"
    "Before zeroTime (m_t (?out ! j))" for i j
  proof (rule ccontr)
    assume "\<not> i < j"
    with that have "j < i" by (cases "i = j") (auto simp: Before_def)
    with 2 that(1) have "\<not> Before (m_t (?out ! i)) (m_t (?out ! j))"
      by (simp add: sorted_wrt_iff_nth_less)
    with that(3,4) show False by simp
  qed
  have 6: "parseTimestampForSort L entry = zeroTime"
    if "\<forall>key\<in>set [''time'', ''ts'', ''timestamp''].
         case lookup entry key of None \<Rightarrow> True
         | Some v \<Rightarrow> ScanEpoch L (Sprint L v) = None \<and> ParseRFC3339 L (Sprint L v) = None"
    for L entry
    unfolding parseTimestampForSort_def using that by (rule timestampLoop_unusable)
  from 1 2 3 4 5 6 show ?thesis by blast
qed

theorem C7_merge_order_witness:
  "SliceStable
     [\<lparr>m_entry = Entry [(''n'', VStr ''1'')], m_t = \<lparr>ext = 5, nsec = 0, zone = 0\<rparr>\<rparr>,
      \<lparr>m_entry = Entry [(''n'', VStr ''2'')], m_t = zeroTime\<rparr>,
      \<lparr>m_entry = Entry [(''n'', VStr ''3'')], m_t = \<lparr>ext = 5, nsec = 0, zone = 0\<rparr>\<rparr>,
      \<lparr>m_entry = Entry [(''n'', VStr ''4'')], m_t = zeroTime\<rparr>] =
     [\<lparr>m_entry = Entry [(''n'', VStr ''2'')], m_t = zeroTime\<rparr>,
      \<lparr>m_entry = Entry [(''n'', VStr ''4'')], m_t = zeroTime\<rparr>,
      \<lparr>m_entry = Entry [(''n'', VStr ''1'')], m_t = \<lparr>ext = 5, nsec = 0, zone = 0\<rparr>\<rparr>,
      \<lparr>m_entry = Entry [(''n'', VStr ''3'')], m_t = \<lparr>ext = 5, nsec = 0, zone = 0\<rparr>\<rparr>] \<and>
   filter (\<lambda>m. timeKey (m_t m) = timeKey zeroTime)
     (SliceStable
       [\<lparr>m_entry = Entry [(''n'', VStr ''1'')], m_t = \<lparr>ext = 5, nsec = 0, zone = 0\<rparr>\<rparr>,
        \<lparr>m_entry = Entry [(''n'', VStr ''2'')], m_t = zeroTime\<rparr>,
        \<lparr>m_entry = Entry [(''n'', VStr ''3'')], m_t = \<lparr>ext = 5, nsec = 0, zone = 0\<rparr>\<rparr>,
        \<lparr>m_entry = Entry [(''n'', VStr ''4'')], m_t = zeroTime\<rparr>]) =
     [\<lparr>m_entry = Entry [(''n'', VStr ''2'')], m_t = zeroTime\<rparr>,
      \<lparr>m_entry = Entry [(''n'', VStr ''4'')], m_t = zeroTime\<rparr>] \<and>
   parseTimestampForSort sampleLib (Entry [(''n'', VStr ''2'')]) = zeroTime"
proof -
  let ?all = "[\<lparr>m_entry = Entry [(''n'', VStr ''1'')], m_t = \<lparr>ext = 5, nsec = 0, zone = 0\<rparr>\<rparr>,
      \<lparr>m_entry = Entry [(''n'', VStr ''2'')], m_t = zeroTime\<rparr>,
      \<lparr>m_entry = Entry [(''n'', VStr ''3'')], m_t = \<lparr>ext = 5, nsec = 0, zone = 0\<rparr>\<rparr>,
      \<lparr>m_entry = Entry [(''n'', VStr ''4'')], m_t = zeroTime\<rparr>]"
  note inst = C7_merge_order [of ?all]
  have stable: "filter (\<lambda>m. timeKey (m_t m) = timeKey zeroTime) (SliceStable ?all) =
      filter (\<lambda>m. timeKey (m_t m) = timeKey zeroTime) ?all"
    using inst by blast
  have "\<forall>key\<in>set [''time'', ''ts'', ''timestamp''].
      case lookup (Entry [(''n'', VStr ''2'')]) key of None \<Rightarrow> True
      | Some v \<Rightarrow> ScanEpoch sampleLib (Sprint sampleLib v) = None \<and>
          ParseRFC3339 sampleLib (Sprint sampleLib v) = None"
    by (simp add: lookup_def)
  with inst have zero: "parseTimestampForSort sampleLib (Entry [(''n'', VStr ''2'')]) = zeroTime"
    by blast
  have "SliceStable ?all =
     [\<lparr>m_entry = Entry [(''n'', VStr ''2'')], m_t = zeroTime\<rparr>,
      \<lparr>m_entry = Entry [(''n'', VStr ''4'')], m_t = zeroTime\<rparr>,
      \<lparr>m_entry = Entry [(''n'', VStr ''1'')], m_t = \<lparr>ext = 5, nsec = 0, zone = 0\<rparr>\<rparr>,
      \<lparr>m_entry = Entry [(''n'', VStr ''3'')], m_t = \<lparr>ext = 5, nsec = 0, zone = 0\<rparr>\<rparr>]"
    by (simp add: SliceStable_def Before_def zeroTime_def)
  with stable zero show ?thesis by (simp add: zeroTime_def timeKey_def)
qed

text \<open>
  Claim C7 as the specification states it fails: the zero time is not the earliest time.
  From a source with a record without a timestamp and a record of the last second of year
  0, \<open>loadEntries\<close> gives the first the zero time and the second a time before it, and the
  sort puts the record with the timestamp in front of the record without one.
\<close>

theorem C7_counterexample:
  "loadLoop sampleLib ''a.log''
     [Entry [(''msg'', VStr ''x'')], Entry [(''time'', VStr ''0000-12-31T23:59:59Z'')]] =
     Inr [\<lparr>m_entry = Entry [(''msg'', VStr ''x''), (''_source'', VStr ''a.log'')],
            m_t = zeroTime\<rparr>,
          \<lparr>m_entry = Entry [(''time'', VStr ''0000-12-31T23:59:59Z''),
              (''_source'', VStr ''a.log'')],
            m_t = \<lparr>ext = - 1, nsec = 0, zone = 0\<rparr>\<rparr>] \<and>
   SliceStable
     [\<lparr>m_entry = Entry [(''msg'', VStr ''x''), (''_source'', VStr ''a.log'')],
            m_t = zeroTime\<rparr>,
          \<lparr>m_entry = Entry [(''time'', VStr ''0000-12-31T23:59:59Z''),
              (''_source'', VStr ''a.log'')],
            m_t = \<lparr>ext = - 1, nsec = 0, zone = 0\<rparr>\<rparr>] =
     [\<lparr>m_entry = Entry [(''time'', VStr ''0000-12-31T23:59:59Z''),
              (''_source'', VStr ''a.log'')],
            m_t = \<lparr>ext = - 1, nsec = 0, zone = 0\<rparr>\<rparr>,
      \<lparr>m_entry = Entry [(''msg'', VStr ''x''), (''_source'', VStr ''a.log'')],
            m_t = zeroTime\<rparr>] \<and>
   lookup (Entry [(''msg'', VStr ''x''), (''_source'', VStr ''a.log'')]) ''time'' = None \<and>
   lookup (Entry [(''msg'', VStr ''x''), (''_source'', VStr ''a.log'')]) ''ts'' = None \<and>
   lookup (Entry [(''msg'', VStr ''x''), (''_source'', VStr ''a.log'')]) ''timestamp'' = None \<and>
   Before \<lparr>ext = - 1, nsec = 0, zone = 0\<rparr> zeroTime"
  by (simp add: sampleLib_def parseTimestampForSort_def lookup_def SliceStable_def Before_def zeroTime_def)


section \<open>Properties of the formatters and of the record\<close>

lemma Match_frame:
  "snd (Match L f entry) = entry" "snd (CompositeFilter_Match L fs entry) = entry"
proof (induction L f entry and L fs entry rule: Match_CompositeFilter_Match.induct)
  case (1 L f entry)
  then show ?case by (simp add: FieldFilter_Match_def split: option.splits)
next
  case (2 L filters entry)
  then show ?case by simp
next
  case (3 L entry)
  then show ?case by simp
next
  case (4 L f filters entry)
  then show ?case by (auto split: prod.splits sum.splits)
qed

lemma loadLoop_source:
  "loadLoop L source entries = Inr result \<Longrightarrow>
    length result = length entries \<and>
    (\<forall>i<length entries. lookup (m_entry (result ! i)) =
       (lookup (entries ! i))(''_source'' \<mapsto> VStr source))"
proof (induction entries arbitrary: result)
  case Nil
  then show ?case by simp
next
  case (Cons e entries)
  show ?case
  proof (cases e)
    case NilEntry
    with Cons.prems show ?thesis by simp
  next
    case (Entry fs)
    with Cons.prems obtain r where r: "loadLoop L source entries = Inr r"
      and res: "result = \<lparr>m_entry = Entry (assign fs ''_source'' (VStr source)),
                m_t = parseTimestampForSort L (Entry (assign fs ''_source'' (VStr source)))\<rparr> # r"
      by (auto split: sum.splits)
    from Cons.IH [OF r] res Entry show ?thesis
      by (auto simp: nth_Cons' lookup_assign)
  qed
qed

lemmas format_eval =
  TextFormatter_Format_def formatTimestamp_def colorizeLevel_def padLevel_def
  otherExtras_def canonical_def keysOf_def lookup_def colorGray_def colorReset_def
  sampleLib_def upperASCII_def

text \<open>
  Claim C9. \<open>Match\<close> of a \<open>FieldFilter\<close> and of a \<open>CompositeFilter\<close>, and \<open>Format\<close> of the
  three formatters, leave the record as it was. \<open>loadEntries\<close>, in merge mode, changes
  each record it loads in one place: the field \<open>_source\<close> holds the name of the source,
  and every other field is as the parser delivered it.
\<close>

theorem C9_record_unchanged:
  "snd (FieldFilter_Match L ff entry) = entry \<and>
   snd (Match L f entry) = entry \<and>
   snd (JSONFormatter_Format L pretty entry) = entry \<and>
   snd (TextFormatter_Format L tf entry) = entry \<and>
   snd (LogfmtFormatter_Format L entry) = entry \<and>
   (\<forall>result. loadLoop L source entries = Inr result \<longrightarrow>
      length result = length entries \<and>
      (\<forall>i<length entries. lookup (m_entry (result ! i)) =
         (lookup (entries ! i))(''_source'' \<mapsto> VStr source)))"
proof -
  have 1: "snd (FieldFilter_Match L ff entry) = entry"
    using Match_frame(1) [of L "FieldF ff" entry] by simp
  have 2: "snd (Match L f entry) = entry" by (rule Match_frame)
  have 3: "snd (JSONFormatter_Format L pretty entry) = entry"
    by (simp add: JSONFormatter_Format_def split: option.splits)
  have 4: "snd (TextFormatter_Format L tf entry) = entry"
    by (simp add: TextFormatter_Format_def Let_def)
  have 5: "snd (LogfmtFormatter_Format L entry) = entry"
    by (simp add: LogfmtFormatter_Format_def Let_def)
  have 6: "length result = length entries \<and>
      (\<forall>i<length entries. lookup (m_entry (result ! i)) =
         (lookup (entries ! i))(''_source'' \<mapsto> VStr source))"
    if "loadLoop L source entries = Inr result" for result
    using that by (rule loadLoop_source)
  from 1 2 3 4 5 6 show ?thesis by blast
qed

theorem C9_record_unchanged_witness:
  "\<forall>L. loadLoop L ''app.log'' [Entry [(''level'', VStr ''info'')]] =
       Inr [\<lparr>m_entry = Entry [(''level'', VStr ''info''), (''_source'', VStr ''app.log'')],
              m_t = zeroTime\<rparr>] \<and>
     lookup (Entry [(''level'', VStr ''info''), (''_source'', VStr ''app.log'')]) =
       (lookup (Entry [(''level'', VStr ''info'')]))(''_source'' \<mapsto> VStr ''app.log'') \<and>
     snd (Match L (CompositeF [FieldF \<lparr>re = None, Field = ''level'', Operator = ''='',
         Value = ''info''\<rparr>]) (Entry [(''level'', VStr ''info'')])) =
       Entry [(''level'', VStr ''info'')]"
proof
  fix L
  let ?e = "Entry [(''level'', VStr ''info'')]"
  let ?r = "[\<lparr>m_entry = Entry [(''level'', VStr ''info''), (''_source'', VStr ''app.log'')],
              m_t = zeroTime\<rparr>]"
  note inst = C9_record_unchanged [of L _ ?e _ _ _ "''app.log''" "[?e]"]
  have load: "loadLoop L ''app.log'' [?e] = Inr ?r"
    by (simp add: parseTimestampForSort_def lookup_def)
  with inst have "\<forall>i<length [?e]. lookup (m_entry (?r ! i)) =
      (lookup ([?e] ! i))(''_source'' \<mapsto> VStr ''app.log'')"
    by blast
  then have "lookup (Entry [(''level'', VStr ''info''), (''_source'', VStr ''app.log'')]) =
       (lookup ?e)(''_source'' \<mapsto> VStr ''app.log'')"
    by simp
  moreover from inst have "snd (Match L (CompositeF [FieldF \<lparr>re = None, Field = ''level'',
      Operator = ''='', Value = ''info''\<rparr>]) ?e) = ?e"
    by blast
  ultimately show "loadLoop L ''app.log'' [?e] = Inr ?r \<and>
     lookup (Entry [(''level'', VStr ''info''), (''_source'', VStr ''app.log'')]) =
       (lookup ?e)(''_source'' \<mapsto> VStr ''app.log'') \<and>
     snd (Match L (CompositeF [FieldF \<lparr>re = None, Field = ''level'', Operator = ''='',
         Value = ''info''\<rparr>]) ?e) = ?e"
    using load by simp
qed

text \<open>
  Claim C10. For a record with none of the fields \<open>time\<close>, \<open>ts\<close> and \<open>timestamp\<close>, the
  text that \<open>TextFormatter.Format\<close> writes starts with the gray placeholder: the escape
  code for gray, fifteen spaces and the escape code for reset. This holds for every
  formatter value, so also with \<open>Color\<close> false.
\<close>

theorem C10_blank_timestamp_colored:
  assumes "lookup entry ''time'' = None" and "lookup entry ''ts'' = None"
    and "lookup entry ''timestamp'' = None"
  shows "\<exists>rest. fst (TextFormatter_Format L f entry) =
      Inr (escape # ''[90m               '' @ escape # ''[0m'' @ rest)"
  using assms
  by (simp add: TextFormatter_Format_def formatTimestamp_def Let_def colorGray_def colorReset_def)

theorem C10_blank_timestamp_colored_witness:
  "lookup (Entry [(''level'', VStr ''error''), (''msg'', VStr ''x''), (''svc'', VStr ''api'')])
     ''time'' = None \<and>
   fst (TextFormatter_Format sampleLib \<lparr>Color = False, Fields = []\<rparr>
      (Entry [(''level'', VStr ''error''), (''msg'', VStr ''x''), (''svc'', VStr ''api'')])) =
   Inr (escape # ''[90m               '' @ escape # ''[0m [ERROR] x svc=api'' @ [newline])"
  using C10_blank_timestamp_colored [of
      "Entry [(''level'', VStr ''error''), (''msg'', VStr ''x''), (''svc'', VStr ''api'')]"
      sampleLib "\<lparr>Color = False, Fields = []\<rparr>"]
  by (simp add: format_eval)

end
